theory Spec2Isabelle
  imports Main "HOL-Library.AList"
begin

section \<open>Python values and exceptions\<close>

text \<open>
  The values that flow through \<^verbatim>\<open>langchain_core/runnables/utils.py\<close> are
  JSON-like Python objects. The embedding covers \<^verbatim>\<open>None\<close>, integers, strings,
  lists and dicts with string keys. A dict is an association list in insertion order;
  Python keeps the keys of a dict unique, so the dicts of interest satisfy
  \<open>distinct (map fst d)\<close>. Floats, booleans and user-defined classes are outside the
  embedding, and so are \<^verbatim>\<open>AddableDict\<close> objects stored as values under a key
  of another dict.
\<close>

datatype pyval =
    PNone
  | PInt int
  | PStr string
  | PList "pyval list"
  | PDict "(string \<times> pyval) list"

type_synonym pydict = "(string \<times> pyval) list"

text \<open>Every \<^verbatim>\<open>raise\<close> of the source and of the built-in operations it uses.\<close>

datatype exn =
    TypeError
  | KeyError
  | IndexError
  | AttributeError
  | AssertionError
  | PatchError

definition bind :: "exn + 'a \<Rightarrow> ('a \<Rightarrow> exn + 'b) \<Rightarrow> exn + 'b" where
  "bind m f = (case m of Inl e \<Rightarrow> Inl e | Inr v \<Rightarrow> f v)"

text \<open>Truth value of an object, as \<^verbatim>\<open>if x:\<close> tests it.\<close>

fun truthy :: "pyval \<Rightarrow> bool" where
  "truthy PNone = False"
| "truthy (PInt i) = (i \<noteq> 0)"
| "truthy (PStr s) = (s \<noteq> [])"
| "truthy (PList xs) = (xs \<noteq> [])"
| "truthy (PDict d) = (d \<noteq> [])"

text \<open>
  The binary operator \<^verbatim>\<open>a + b\<close> on these values: integers add, strings and lists
  concatenate, every other pair raises \<^verbatim>\<open>TypeError\<close> (a plain dict has no
  \<^verbatim>\<open>__add__\<close>, and neither has \<^verbatim>\<open>None\<close>).
\<close>

fun py_add :: "pyval \<Rightarrow> pyval \<Rightarrow> exn + pyval" where
  "py_add (PInt a) (PInt b) = Inr (PInt (a + b))"
| "py_add (PStr a) (PStr b) = Inr (PStr (a @ b))"
| "py_add (PList a) (PList b) = Inr (PList (a @ b))"
| "py_add _ _ = Inl TypeError"

section \<open>Accumulator merge\<close>

subsection \<open>\<^verbatim>\<open>AddableDict.__add__\<close>\<close>

text \<open>
  \<^verbatim>\<open>
  try:
      added = chunk[key] + other[key]
  except TypeError:
      added = other[key]
  \<close>
  Only \<^verbatim>\<open>TypeError\<close> is caught; any other exception would leave the method.
\<close>

definition try_add :: "pyval \<Rightarrow> pyval \<Rightarrow> exn + pyval" where
  "try_add a b =
     (case py_add a b of
        Inr added \<Rightarrow> Inr added
      | Inl TypeError \<Rightarrow> Inr b
      | Inl e \<Rightarrow> Inl e)"

text \<open>
  The body of the loop \<^verbatim>\<open>for key in other\<close>, with \<open>ov\<close> the value
  \<^verbatim>\<open>other[key]\<close>:
  \<^verbatim>\<open>
  if key not in chunk or chunk[key] is None:
      chunk[key] = other[key]
  elif other[key] is not None:
      ... chunk[key] = added
  \<close>
\<close>

definition add_key :: "pydict \<Rightarrow> string \<Rightarrow> pyval \<Rightarrow> exn + pydict" where
  "add_key chunk key ov =
     (case map_of chunk key of
        None \<Rightarrow> Inr (AList.update key ov chunk)
      | Some cv \<Rightarrow>
          if cv = PNone then Inr (AList.update key ov chunk)
          else if ov \<noteq> PNone then
            bind (try_add cv ov) (\<lambda>added. Inr (AList.update key added chunk))
          else Inr chunk)"

fun add_keys :: "pydict \<Rightarrow> pydict \<Rightarrow> exn + pydict" where
  "add_keys chunk [] = Inr chunk"
| "add_keys chunk ((key, ov) # rest) =
     bind (add_key chunk key ov) (\<lambda>chunk'. add_keys chunk' rest)"

text \<open>
  \<^verbatim>\<open>AddableDict.__add__(self, other)\<close>: \<^verbatim>\<open>chunk = AddableDict(self)\<close> is a
  copy of \<open>self\<close>, the loop runs over the keys of \<open>other\<close> in their order, and
  \<open>chunk\<close> is returned.
\<close>

definition AddableDict_add :: "pydict \<Rightarrow> pydict \<Rightarrow> exn + pydict" where
  "AddableDict_add self other = add_keys self other"

subsection \<open>\<^verbatim>\<open>add\<close> and \<^verbatim>\<open>aadd\<close>\<close>

text \<open>
  \<^verbatim>\<open>
  final = None
  for chunk in addables:
      if final is None:
          final = chunk
      else:
          final = final + chunk
  return final
  \<close>
  The function is generic in the type of the chunks (\<^verbatim>\<open>TypeVar Addable\<close>), and
  \<^verbatim>\<open>final + chunk\<close> dispatches to that type's \<^verbatim>\<open>__add__\<close>. The embedding
  takes the operator as \<open>add_op\<close> and the object \<^verbatim>\<open>None\<close> as \<open>none\<close>.
  \<^verbatim>\<open>aadd\<close> is the same loop over an asynchronous iterator, which delivers
  its chunks one after the other; both are this function.
\<close>

fun add_loop :: "('a \<Rightarrow> 'a \<Rightarrow> exn + 'a) \<Rightarrow> 'a \<Rightarrow> 'a \<Rightarrow> 'a list \<Rightarrow> exn + 'a" where
  "add_loop add_op none final [] = Inr final"
| "add_loop add_op none final (chunk # rest) =
     (if final = none then add_loop add_op none chunk rest
      else bind (add_op final chunk) (\<lambda>s. add_loop add_op none s rest))"

definition add :: "('a \<Rightarrow> 'a \<Rightarrow> exn + 'a) \<Rightarrow> 'a \<Rightarrow> 'a list \<Rightarrow> exn + 'a" where
  "add add_op none addables = add_loop add_op none none addables"

text \<open>The fold on the values of the embedding.\<close>

definition add_values :: "pyval list \<Rightarrow> exn + pyval" where
  "add_values addables = add py_add PNone addables"

section \<open>Run-state event translator\<close>

subsection \<open>Built-in operations on objects\<close>

text \<open>
  \<^verbatim>\<open>d[key]\<close> on a dict raises \<^verbatim>\<open>KeyError\<close> when the key is missing.
  \<^verbatim>\<open>obj[key]\<close> with a string key on \<^verbatim>\<open>None\<close>, an integer, a string or a
  list raises \<^verbatim>\<open>TypeError\<close>.
\<close>

definition lookup :: "pydict \<Rightarrow> string \<Rightarrow> exn + pyval" where
  "lookup d key = (case map_of d key of None \<Rightarrow> Inl KeyError | Some v \<Rightarrow> Inr v)"

definition getitem :: "pyval \<Rightarrow> string \<Rightarrow> exn + pyval" where
  "getitem obj key = (case obj of PDict d \<Rightarrow> lookup d key | _ \<Rightarrow> Inl TypeError)"

text \<open>\<^verbatim>\<open>del d[key]\<close> on a dict.\<close>

definition del_key :: "pydict \<Rightarrow> string \<Rightarrow> exn + pydict" where
  "del_key d key =
     (case map_of d key of None \<Rightarrow> Inl KeyError | Some v \<Rightarrow> Inr (AList.delete key d))"

text \<open>\<^verbatim>\<open>d.get(key, default)\<close> on a dict.\<close>

definition dict_get :: "pydict \<Rightarrow> string \<Rightarrow> pyval \<Rightarrow> pyval" where
  "dict_get d key dflt = (case map_of d key of None \<Rightarrow> dflt | Some v \<Rightarrow> v)"

text \<open>\<^verbatim>\<open>len(x)\<close> and \<^verbatim>\<open>x[0]\<close>.\<close>

fun py_len :: "pyval \<Rightarrow> exn + nat" where
  "py_len (PStr s) = Inr (length s)"
| "py_len (PList xs) = Inr (length xs)"
| "py_len (PDict d) = Inr (length d)"
| "py_len PNone = Inl TypeError"
| "py_len (PInt i) = Inl TypeError"

fun first_item :: "pyval \<Rightarrow> exn + pyval" where
  "first_item (PList []) = Inl IndexError"
| "first_item (PList (x # xs)) = Inr x"
| "first_item (PStr []) = Inl IndexError"
| "first_item (PStr (c # cs)) = Inr (PStr [c])"
| "first_item (PDict d) = Inl KeyError"
| "first_item PNone = Inl TypeError"
| "first_item (PInt i) = Inl TypeError"

text \<open>
  \<^verbatim>\<open>log["type"] in {"retriever", "tool", "llm"}\<close>: membership in a set hashes the
  left operand, which lists and dicts refuse with \<^verbatim>\<open>TypeError\<close>.
\<close>

fun is_old_style :: "pyval \<Rightarrow> exn + bool" where
  "is_old_style (PStr s) = Inr (s \<in> {''retriever'', ''tool'', ''llm''})"
| "is_old_style PNone = Inr False"
| "is_old_style (PInt i) = Inr False"
| "is_old_style (PList xs) = Inl TypeError"
| "is_old_style (PDict d) = Inl TypeError"

text \<open>\<^verbatim>\<open>s.split(sep)\<close> for a separator of one character, and \<^verbatim>\<open>s.startswith(p)\<close>.\<close>

fun split :: "char \<Rightarrow> string \<Rightarrow> string list" where
  "split sep [] = [[]]"
| "split sep (c # cs) =
     (if c = sep then [] # split sep cs
      else (case split sep cs of
              [] \<Rightarrow> [[c]]
            | w # ws \<Rightarrow> (c # w) # ws))"

definition startswith :: "string \<Rightarrow> string \<Rightarrow> bool" where
  "startswith s p = (take (length p) s = p)"

text \<open>\<^verbatim>\<open>xs[i]\<close> on a list, for an index that is not negative.\<close>

definition item :: "'a list \<Rightarrow> nat \<Rightarrow> exn + 'a" where
  "item xs i = (if i < length xs then Inr (xs ! i) else Inl IndexError)"

subsection \<open>Events\<close>

text \<open>The three values of \<^verbatim>\<open>event_type\<close>.\<close>

datatype event_type = Start | Stream | End

text \<open>
  \<open>On t k\<close> is the string \<^verbatim>\<open>f"on_{t}_{k}"\<close> of the field \<^verbatim>\<open>event\<close>, kept as
  its two parts: the run's type and the event type.
\<close>

datatype event_name = On (run_type: pyval) (kind: event_type)

record StreamEvent =
  event :: event_name
  name :: pyval
  run_id :: pyval
  tags :: pyval
  metadata :: pyval
  data :: pydict

text \<open>
  The generator has four \<^verbatim>\<open>yield\<close> statements. Every emitted event is paired with
  the statement that produced it: the root start, the event of the sub-run under a path,
  the root stream event and the final root end.
\<close>

datatype site = RootStart | SubRun string | RootStream | RootEnd

type_synonym emitted = "site \<times> StreamEvent"

text \<open>
  A run of a piece of the generator: the events it has yielded, and either the exception
  that ended it or its result.
\<close>

type_synonym 'a gen = "emitted list \<times> (exn + 'a)"

definition lift :: "exn + 'a \<Rightarrow> 'a gen" where
  "lift m = ([], m)"

definition gen_bind :: "'a gen \<Rightarrow> ('a \<Rightarrow> 'b gen) \<Rightarrow> 'b gen" where
  "gen_bind m f =
     (case m of
        (evs, Inl e) \<Rightarrow> (evs, Inl e)
      | (evs, Inr v) \<Rightarrow> (case f v of (evs', r) \<Rightarrow> (evs @ evs', r)))"

subsection \<open>The body of the loop over the touched sub-runs\<close>

text \<open>
  \<^verbatim>\<open>
  if log["end_time"] is None:
      if log["streamed_output"]:
          event_type = "stream"
      else:
          event_type = "start"
  else:
      event_type = "end"
  \<close>
\<close>

definition classify :: "pydict \<Rightarrow> exn + event_type" where
  "classify log =
     bind (lookup log ''end_time'') (\<lambda>end_time.
       if end_time = PNone then
         bind (lookup log ''streamed_output'') (\<lambda>streamed_output.
           Inr (if truthy streamed_output then Stream else Start))
       else Inr End)"

text \<open>
  The block \<^verbatim>\<open>if event_type == "start"\<close>. It reads \<^verbatim>\<open>log["inputs"]\<close> and
  leaves \<open>log\<close> as it is (both \<^verbatim>\<open>del log["inputs"]\<close> are commented out).
\<close>

definition start_data :: "pydict \<Rightarrow> exn + pydict" where
  "start_data log =
     bind (lookup log ''type'') (\<lambda>t.
     bind (is_old_style t) (\<lambda>old_style.
       if old_style then
         bind (lookup log ''inputs'') (\<lambda>inputs.
           if truthy inputs then Inr [(''input'', inputs)] else Inr [])
       else
         bind (lookup log ''inputs'') (\<lambda>inputs.
         bind (getitem inputs ''input'') (\<lambda>v. Inr [(''input'', v)]))))"

text \<open>
  The block \<^verbatim>\<open>if event_type == "end"\<close>: the event data and the sub-run's dict
  after the \<^verbatim>\<open>del\<close> statements.
\<close>

definition end_data :: "pydict \<Rightarrow> exn + (pydict \<times> pydict)" where
  "end_data log =
     bind (lookup log ''type'') (\<lambda>t.
     bind (is_old_style t) (\<lambda>old_style.
       if old_style then
         bind (lookup log ''final_output'') (\<lambda>final_output.
         bind (del_key log ''final_output'') (\<lambda>log1.
         bind (lookup log1 ''inputs'') (\<lambda>inputs.
           if truthy inputs then
             bind (del_key log1 ''inputs'') (\<lambda>log2.
               Inr (AList.update ''input'' inputs [(''output'', final_output)], log2))
           else Inr ([(''output'', final_output)], log1))))
       else
         bind (lookup log ''final_output'') (\<lambda>final_output.
         bind (case final_output of
                 PNone \<Rightarrow> Inr ([(''output'', PNone)], log)
               | PDict fo \<Rightarrow>
                   bind (del_key log ''final_output'') (\<lambda>log1.
                     Inr ([(''output'', dict_get fo ''output'' PNone)], log1))
               | _ \<Rightarrow> Inr ([], log)) (\<lambda>(data1, log1).
         bind (lookup log1 ''inputs'') (\<lambda>inputs.
           if truthy inputs then
             bind (getitem inputs ''input'') (\<lambda>v.
             bind (del_key log1 ''inputs'') (\<lambda>log2.
               Inr (AList.update ''input'' v data1, log2)))
           else Inr (data1, log1))))))"

text \<open>
  The block \<^verbatim>\<open>if event_type == "stream"\<close>, which the code repeats for the root
  state after the loop:
  \<^verbatim>\<open>
  num_chunks = len(log["streamed_output"])
  if num_chunks != 1:
      raise AssertionError(f"... got {num_chunks} ... Encountered in: {log['name']}")
  data = {"chunk": log["streamed_output"][0]}
  log["streamed_output"] = []
  \<close>
  The message of the assertion reads \<^verbatim>\<open>log['name']\<close>, so a dict without a name
  raises \<^verbatim>\<open>KeyError\<close> there.
\<close>

definition stream_data :: "pydict \<Rightarrow> exn + (pydict \<times> pydict)" where
  "stream_data log =
     bind (lookup log ''streamed_output'') (\<lambda>streamed_output.
     bind (py_len streamed_output) (\<lambda>num_chunks.
       if num_chunks \<noteq> 1 then
         bind (lookup log ''name'') (\<lambda>n. Inl AssertionError)
       else
         bind (first_item streamed_output) (\<lambda>chunk.
           Inr ([(''chunk'', chunk)], AList.update ''streamed_output'' (PList []) log))))"

text \<open>
  The body of \<^verbatim>\<open>for path in paths\<close> from \<^verbatim>\<open>data = {}\<close> to the
  \<^verbatim>\<open>yield\<close>, on the object \<^verbatim>\<open>log = run_log.state["logs"][path]\<close>. It
  returns the event and the object as the body leaves it.
\<close>

definition sub_run_dict :: "pydict \<Rightarrow> exn + (StreamEvent \<times> pydict)" where
  "sub_run_dict log =
     bind (classify log) (\<lambda>event_type.
     bind (case event_type of
             Start \<Rightarrow> bind (start_data log) (\<lambda>d. Inr (d, log))
           | End \<Rightarrow> end_data log
           | Stream \<Rightarrow> stream_data log) (\<lambda>(d, log1).
     bind (lookup log1 ''type'') (\<lambda>t.
     bind (lookup log1 ''name'') (\<lambda>n.
     bind (lookup log1 ''id'') (\<lambda>i.
     bind (lookup log1 ''tags'') (\<lambda>tg.
     bind (lookup log1 ''metadata'') (\<lambda>m.
       Inr (\<lparr>event = On t event_type, name = n, run_id = i, tags = tg,
              metadata = m, data = d\<rparr>, log1))))))))"

definition sub_run_event :: "pyval \<Rightarrow> exn + (StreamEvent \<times> pyval)" where
  "sub_run_event log =
     (case log of
        PDict d \<Rightarrow> bind (sub_run_dict d) (\<lambda>(ev, d1). Inr (ev, PDict d1))
      | _ \<Rightarrow> Inl TypeError)"

subsection \<open>The run state\<close>

text \<open>
  \<^verbatim>\<open>run_log.state\<close> is \<^verbatim>\<open>None\<close> at first (\<^verbatim>\<open>RunLog(state=None)\<close>) and a
  \<^verbatim>\<open>RunState\<close> dict afterwards. \<^verbatim>\<open>run_log.state[key]\<close> on \<^verbatim>\<open>None\<close>
  raises \<^verbatim>\<open>TypeError\<close>.
\<close>

type_synonym run_state = "pydict option"

definition state_getitem :: "run_state \<Rightarrow> string \<Rightarrow> exn + pyval" where
  "state_getitem st key = (case st of None \<Rightarrow> Inl TypeError | Some d \<Rightarrow> lookup d key)"

text \<open>
  The loop body changes the object \<^verbatim>\<open>run_log.state["logs"][path]\<close> in place.
  \<open>store_log\<close> writes the changed object back under its path.
\<close>

definition store_log :: "pydict \<Rightarrow> string \<Rightarrow> pyval \<Rightarrow> pydict" where
  "store_log state path log =
     (case map_of state ''logs'' of
        Some (PDict logs) \<Rightarrow> AList.update ''logs'' (PDict (AList.update path log logs)) state
      | _ \<Rightarrow> state)"

text \<open>The expression \<^verbatim>\<open>run_log.state["logs"][path]\<close>.\<close>

definition get_log :: "run_state \<Rightarrow> string \<Rightarrow> exn + pyval" where
  "get_log st path = bind (state_getitem st ''logs'') (\<lambda>logs. getitem logs path)"

definition sub_run_step :: "run_state \<Rightarrow> string \<Rightarrow> exn + (StreamEvent \<times> run_state)" where
  "sub_run_step st path =
     bind (get_log st path) (\<lambda>log.
     bind (sub_run_event log) (\<lambda>(ev, log1).
       Inr (ev, map_option (\<lambda>state. store_log state path log1) st)))"

fun for_paths :: "run_state \<Rightarrow> string list \<Rightarrow> run_state gen" where
  "for_paths st [] = ([], Inr st)"
| "for_paths st (path # rest) =
     (case sub_run_step st path of
        Inl e \<Rightarrow> ([], Inl e)
      | Inr (ev, st1) \<Rightarrow>
          (case for_paths st1 rest of (evs, r) \<Rightarrow> ((SubRun path, ev) # evs, r)))"

subsection \<open>The root events\<close>

text \<open>
  \<^verbatim>\<open>
  if not yielded_start_event:
      state = run_log.state.copy()
      data = {}
      if "id" in state:
          yield StreamEvent(event=f"on_{state['type']}_start", name=state["name"],
                            run_id=state["id"], tags=[], metadata={}, data=data)
          yielded_start_event = True
  \<close>
  The result is the new value of \<^verbatim>\<open>yielded_start_event\<close>.
\<close>

definition root_start :: "run_state \<Rightarrow> bool \<Rightarrow> bool gen" where
  "root_start st yielded_start_event =
     (if \<not> yielded_start_event then
        (case st of
           None \<Rightarrow> ([], Inl AttributeError)
         | Some state \<Rightarrow>
             if ''id'' \<in> set (map fst state) then
               gen_bind
                 (lift (bind (lookup state ''type'') (\<lambda>t.
                        bind (lookup state ''name'') (\<lambda>n.
                        bind (lookup state ''id'') (\<lambda>i.
                          Inr \<lparr>event = On t Start, name = n, run_id = i, tags = PList [],
                               metadata = PDict [], data = []\<rparr>)))))
                 (\<lambda>ev. ([(RootStart, ev)], Inr True))
             else ([], Inr False))
      else ([], Inr True))"

text \<open>
  The part of the loop that follows the sub-runs:
  \<^verbatim>\<open>
  state = run_log.state
  if state["streamed_output"]:
      ...
      yield StreamEvent(event=f"on_{state['type']}_stream", name=state["name"],
                        run_id=state["id"], tags=state.get("tags", []),
                        metadata=state.get("metadata", {}), data=data)
  \<close>
\<close>

definition root_stream :: "run_state \<Rightarrow> run_state gen" where
  "root_stream st =
     gen_bind (lift (state_getitem st ''streamed_output'')) (\<lambda>streamed_output.
       if truthy streamed_output then
         (case st of
            None \<Rightarrow> ([], Inl TypeError)
          | Some state \<Rightarrow>
              gen_bind (lift (stream_data state)) (\<lambda>(d, state1).
              gen_bind
                (lift (bind (lookup state1 ''type'') (\<lambda>t.
                       bind (lookup state1 ''name'') (\<lambda>n.
                       bind (lookup state1 ''id'') (\<lambda>i.
                         Inr \<lparr>event = On t Stream, name = n, run_id = i,
                              tags = dict_get state1 ''tags'' (PList []),
                              metadata = dict_get state1 ''metadata'' (PDict []),
                              data = d\<rparr>)))))
                (\<lambda>ev. ([(RootStream, ev)], Inr (Some state1)))))
       else ([], Inr st))"

text \<open>
  The statements after the loop:
  \<^verbatim>\<open>
  state = run_log.state.copy()
  state.update({"tags": [], "metadata": {}})
  data = {"output": state["final_output"]}
  yield StreamEvent(event=f"on_{state['type']}_end", name=state["name"],
                    run_id=state["id"], tags=state["tags"], metadata=state["metadata"],
                    data=data)
  \<close>
\<close>

definition final_event :: "run_state \<Rightarrow> unit gen" where
  "final_event st =
     (case st of
        None \<Rightarrow> ([], Inl AttributeError)
      | Some state0 \<Rightarrow>
          (let state = AList.update ''metadata'' (PDict [])
                         (AList.update ''tags'' (PList []) state0)
           in gen_bind
                (lift (bind (lookup state ''final_output'') (\<lambda>output.
                       bind (lookup state ''type'') (\<lambda>t.
                       bind (lookup state ''name'') (\<lambda>n.
                       bind (lookup state ''id'') (\<lambda>i.
                       bind (lookup state ''tags'') (\<lambda>tg.
                       bind (lookup state ''metadata'') (\<lambda>m.
                         Inr \<lparr>event = On t End, name = n, run_id = i, tags = tg,
                              metadata = m, data = [(''output'', output)]\<rparr>))))))))
                (\<lambda>ev. ([(RootEnd, ev)], Inr ()))))"

subsection \<open>Patches\<close>

text \<open>
  A \<^verbatim>\<open>RunLogPatch\<close> holds a list \<^verbatim>\<open>ops\<close> of JSON-patch operations. The
  translator reads the \<^verbatim>\<open>"path"\<close> of each.
\<close>

record patch_op =
  op :: string
  path :: string
  val :: pyval

type_synonym RunLogPatch = "patch_op list"

text \<open>
  \<^verbatim>\<open>
  paths = {op["path"].split("/")[2] for op in log.ops if op["path"].startswith("/logs/")}
  \<close>
  The elements of the set, each once. The order in which the loop visits them is the
  parameter \<open>order\<close> of the next subsection.
\<close>

fun path_segments :: "RunLogPatch \<Rightarrow> exn + string list" where
  "path_segments [] = Inr []"
| "path_segments (x # ops) =
     (if startswith (path x) ''/logs/'' then
        bind (item (split (CHR ''/'') (path x)) 2) (\<lambda>seg.
        bind (path_segments ops) (\<lambda>segs. Inr (seg # segs)))
      else path_segments ops)"

definition touched_paths :: "RunLogPatch \<Rightarrow> exn + string list" where
  "touched_paths ops = bind (path_segments ops) (\<lambda>segs. Inr (remdups segs))"

subsection \<open>\<^verbatim>\<open>as_event_stream\<close>\<close>

text \<open>
  Two things the function uses are not in \<^verbatim>\<open>utils.py\<close>. \<^verbatim>\<open>run_log + log\<close> is
  \<^verbatim>\<open>RunLog.__add__\<close> of \<^verbatim>\<open>langchain_core.tracers\<close>, which applies the patch
  to a copy of the state: it is the parameter \<open>radd\<close>. The order in which
  \<^verbatim>\<open>for path in paths\<close> visits a Python set is not fixed by the language: it is
  the parameter \<open>order\<close>, which arranges the elements of the set.

  One turn of \<^verbatim>\<open>async for log in run_log_patches\<close>, on the state and the flag
  \<^verbatim>\<open>yielded_start_event\<close>:
\<close>

definition patch_body ::
  "(run_state \<Rightarrow> RunLogPatch \<Rightarrow> exn + run_state) \<Rightarrow> (string list \<Rightarrow> string list) \<Rightarrow>
   run_state \<Rightarrow> bool \<Rightarrow> RunLogPatch \<Rightarrow> (run_state \<times> bool) gen" where
  "patch_body radd order st yielded_start_event log =
     gen_bind (lift (radd st log)) (\<lambda>st1.
     gen_bind (root_start st1 yielded_start_event) (\<lambda>yielded1.
     gen_bind (lift (touched_paths log)) (\<lambda>paths.
     gen_bind (for_paths st1 (order paths)) (\<lambda>st2.
     gen_bind (root_stream st2) (\<lambda>st3. ([], Inr (st3, yielded1)))))))"

fun patch_loop ::
  "(run_state \<Rightarrow> RunLogPatch \<Rightarrow> exn + run_state) \<Rightarrow> (string list \<Rightarrow> string list) \<Rightarrow>
   run_state \<Rightarrow> bool \<Rightarrow> RunLogPatch list \<Rightarrow> (run_state \<times> bool) gen" where
  "patch_loop radd order st yielded [] = ([], Inr (st, yielded))"
| "patch_loop radd order st yielded (log # rest) =
     gen_bind (patch_body radd order st yielded log)
       (\<lambda>(st1, yielded1). patch_loop radd order st1 yielded1 rest)"

text \<open>
  The generator from a given state and flag, and \<^verbatim>\<open>as_event_stream\<close>, which starts
  with \<^verbatim>\<open>RunLog(state=None)\<close> and \<^verbatim>\<open>yielded_start_event = False\<close>.
\<close>

definition event_stream_from ::
  "(run_state \<Rightarrow> RunLogPatch \<Rightarrow> exn + run_state) \<Rightarrow> (string list \<Rightarrow> string list) \<Rightarrow>
   run_state \<Rightarrow> bool \<Rightarrow> RunLogPatch list \<Rightarrow> unit gen" where
  "event_stream_from radd order st yielded run_log_patches =
     gen_bind (patch_loop radd order st yielded run_log_patches)
       (\<lambda>(st1, yielded1). final_event st1)"

definition as_event_stream ::
  "(run_state \<Rightarrow> RunLogPatch \<Rightarrow> exn + run_state) \<Rightarrow> (string list \<Rightarrow> string list) \<Rightarrow>
   RunLogPatch list \<Rightarrow> unit gen" where
  "as_event_stream radd order run_log_patches =
     event_stream_from radd order None False run_log_patches"

subsection \<open>Applying a patch\<close>

text \<open>
  Modelled from the spec: \<^verbatim>\<open>RunLog.__add__\<close> of \<^verbatim>\<open>langchain_core.tracers\<close>
  is not among the sources. The spec describes a patch as "an operation with a
  slash-delimited path into the state tree and a value; semantically an add or replace at
  that path", with the path syntax \<^verbatim>\<open>/logs/<segment>/<field>...\<close> or
  \<^verbatim>\<open>/<field>...\<close>, and appends a chunk to a list with a path that ends in
  \<^verbatim>\<open>/-\<close>. \<open>put_at\<close> follows the path through nested dicts and adds or replaces
  the value under the last key; the empty path replaces the whole tree. The theorems
  below hold for every \<open>radd\<close>; this one serves as a concrete instance.
\<close>

fun put_at :: "string list \<Rightarrow> pyval \<Rightarrow> pyval \<Rightarrow> exn + pyval" where
  "put_at [] v doc = Inr v"
| "put_at [k] v (PDict d) = Inr (PDict (AList.update k v d))"
| "put_at [k] v (PList xs) = (if k = ''-'' then Inr (PList (xs @ [v])) else Inl PatchError)"
| "put_at (k # k' # ks) v (PDict d) =
     (case map_of d k of
        None \<Rightarrow> Inl PatchError
      | Some sub \<Rightarrow> bind (put_at (k' # ks) v sub) (\<lambda>sub'. Inr (PDict (AList.update k sub' d))))"
| "put_at ks v doc = Inl PatchError"

definition apply_op :: "pyval \<Rightarrow> patch_op \<Rightarrow> exn + pyval" where
  "apply_op doc x =
     (if path x = [] then Inr (val x)
      else (case split (CHR ''/'') (path x) of
              [] # tokens \<Rightarrow> put_at tokens (val x) doc
            | _ \<Rightarrow> Inl PatchError))"

fun apply_ops :: "pyval \<Rightarrow> RunLogPatch \<Rightarrow> exn + pyval" where
  "apply_ops doc [] = Inr doc"
| "apply_ops doc (x # ops) = bind (apply_op doc x) (\<lambda>doc'. apply_ops doc' ops)"

definition RunLog_add :: "run_state \<Rightarrow> RunLogPatch \<Rightarrow> exn + run_state" where
  "RunLog_add st ops =
     bind (apply_ops (case st of None \<Rightarrow> PNone | Some d \<Rightarrow> PDict d) ops) (\<lambda>doc.
       case doc of
         PDict d \<Rightarrow> Inr (Some d)
       | PNone \<Rightarrow> Inr None
       | _ \<Rightarrow> Inl PatchError)"

subsection \<open>Shapes of event sequences\<close>

text \<open>
  Two properties of a sequence of emitted events, used to state where the root events
  stand: it holds sub-run events only; it holds neither a root start nor a final root end.
\<close>

definition only_sub_runs :: "emitted list \<Rightarrow> bool" where
  "only_sub_runs evs = list_all (\<lambda>x. case fst x of SubRun p \<Rightarrow> True | _ \<Rightarrow> False) evs"

definition no_root_start_end :: "emitted list \<Rightarrow> bool" where
  "no_root_start_end evs = list_all (\<lambda>x. fst x \<noteq> RootStart \<and> fst x \<noteq> RootEnd) evs"

text \<open>
  The condition of a sub-run's object once an end event has used it up: it has an
  \<^verbatim>\<open>end_time\<close>, its \<^verbatim>\<open>inputs\<close> are deleted or empty, its \<^verbatim>\<open>type\<close>
  is one the membership test accepts, and its \<^verbatim>\<open>final_output\<close> is deleted or, for
  a new-style run, is an object that the end block does not delete (\<^verbatim>\<open>None\<close>,
  or neither \<^verbatim>\<open>None\<close> nor a dict).
\<close>

definition drained :: "pydict \<Rightarrow> bool" where
  "drained log =
     ((case map_of log ''end_time'' of None \<Rightarrow> False | Some end_time \<Rightarrow> end_time \<noteq> PNone) \<and>
      (case map_of log ''inputs'' of None \<Rightarrow> True | Some inputs \<Rightarrow> \<not> truthy inputs) \<and>
      (case map_of log ''type'' of
         None \<Rightarrow> False
       | Some t \<Rightarrow>
           (case is_old_style t of
              Inl e \<Rightarrow> False
            | Inr old_style \<Rightarrow>
                (case map_of log ''final_output'' of
                   None \<Rightarrow> True
                 | Some (PDict fo) \<Rightarrow> False
                 | Some final_output \<Rightarrow> \<not> old_style))))"

section \<open>Properties of the accumulator merge\<close>

lemma bind_Inr [simp]: "bind (Inr v) f = f v"
  by (simp add: bind_def)

lemma bind_Inl [simp]: "bind (Inl e) f = Inl e"
  by (simp add: bind_def)

lemma bind_eq_Inr: "bind m f = Inr r \<longleftrightarrow> (\<exists>v. m = Inr v \<and> f v = Inr r)"
  by (cases m) simp_all

lemma py_add_raises: "py_add a b = Inl e \<Longrightarrow> e = TypeError"
  by (induction a b rule: py_add.induct) simp_all

lemma try_add_total: "\<exists>v. try_add a b = Inr v"
proof (cases "py_add a b")
  case (Inl e)
  then have "e = TypeError" by (rule py_add_raises)
  with Inl show ?thesis by (simp add: try_add_def)
next
  case (Inr v)
  then show ?thesis by (simp add: try_add_def)
qed

lemma try_add_override: "py_add a b = Inl TypeError \<Longrightarrow> try_add a b = Inr b"
  by (simp add: try_add_def)

lemma add_key_total: "\<exists>r. add_key chunk key ov = Inr r"
  using try_add_total [of "the (map_of chunk key)" ov]
  by (auto simp: add_key_def split: option.splits)

lemma add_key_other:
  "add_key chunk key ov = Inr r \<Longrightarrow> k \<noteq> key \<Longrightarrow> map_of r k = map_of chunk k"
  by (auto simp: add_key_def bind_eq_Inr update_conv' split: option.splits if_splits)

lemma add_keys_total: "\<exists>r. add_keys chunk other = Inr r"
proof (induction other arbitrary: chunk)
  case Nil
  show ?case by simp
next
  case (Cons kv rest)
  obtain key ov where kv: "kv = (key, ov)" by (cases kv)
  obtain c where "add_key chunk key ov = Inr c" using add_key_total by blast
  with Cons kv show ?case by simp
qed

lemma add_keys_untouched:
  "add_keys chunk other = Inr r \<Longrightarrow> k \<notin> fst ` set other \<Longrightarrow> map_of r k = map_of chunk k"
proof (induction other arbitrary: chunk)
  case Nil
  then show ?case by simp
next
  case (Cons kv rest)
  obtain key ov where kv: "kv = (key, ov)" by (cases kv)
  from Cons.prems kv obtain c
    where c: "add_key chunk key ov = Inr c" and r: "add_keys c rest = Inr r"
    by (auto simp: bind_eq_Inr)
  from Cons.prems kv have "k \<noteq> key" "k \<notin> fst ` set rest" by auto
  with Cons.IH [OF r] add_key_other [OF c] show ?case by simp
qed

text \<open>
  When the keys of \<open>other\<close> are distinct, the value that the sum holds under a key of
  \<open>other\<close> is the one the loop body computes for that key from \<open>self\<close>.
\<close>

lemma add_keys_at:
  "add_keys chunk other = Inr r \<Longrightarrow> distinct (map fst other) \<Longrightarrow> map_of other k = Some ov \<Longrightarrow>
   \<exists>c. add_key chunk k ov = Inr c \<and> map_of r k = map_of c k"
proof (induction other arbitrary: chunk)
  case Nil
  then show ?case by simp
next
  case (Cons kv rest)
  obtain key v where kv: "kv = (key, v)" by (cases kv)
  from Cons.prems kv obtain c
    where c: "add_key chunk key v = Inr c" and r: "add_keys c rest = Inr r"
    by (auto simp: bind_eq_Inr)
  show ?case
  proof (cases "k = key")
    case True
    with Cons.prems kv have "ov = v" and "k \<notin> fst ` set rest" by auto
    with True c add_keys_untouched [OF r] show ?thesis by auto
  next
    case False
    with Cons.prems kv have m: "map_of rest k = Some ov" and d: "distinct (map fst rest)"
      by auto
    from Cons.IH [OF r d m] obtain c'
      where c': "add_key c k ov = Inr c'" and e: "map_of r k = map_of c' k"
      by blast
    obtain c2 where c2: "add_key chunk k ov = Inr c2" using add_key_total by blast
    have "map_of c k = map_of chunk k" using add_key_other [OF c False] .
    then have "map_of c' k = map_of c2 k" using c' c2
      by (auto simp: add_key_def bind_eq_Inr update_conv' split: option.splits if_splits)
    with c2 e show ?thesis by auto
  qed
qed

text \<open>
  C7, as the code has it. \<^verbatim>\<open>add\<close> and \<^verbatim>\<open>aadd\<close> return \<^verbatim>\<open>None\<close> for an
  empty sequence. \<^verbatim>\<open>None\<close> is a left identity of the fold: while the accumulated
  value is \<^verbatim>\<open>None\<close> the next chunk replaces it, so a sequence \<open>x # rest\<close> is folded
  from \<open>x\<close>, and the singleton sequence \<open>[x]\<close> gives \<open>x\<close> unchanged. Inside
  \<^verbatim>\<open>AddableDict.__add__\<close> the identity is two-sided, key by key: a key that is
  missing or \<^verbatim>\<open>None\<close> on the left takes the right value, and a \<^verbatim>\<open>None\<close> on the
  right leaves the left dict as it is.
\<close>

theorem add_none_left_identity:
  "add add_op none [] = Inr none \<and>
   add add_op none [x] = Inr x \<and>
   add add_op none (x # rest) = add_loop add_op none x rest \<and>
   ((map_of chunk key = None \<or> map_of chunk key = Some PNone) \<longrightarrow>
      add_key chunk key v = Inr (AList.update key v chunk)) \<and>
   (map_of chunk key = Some v \<longrightarrow> add_key chunk key PNone = Inr chunk)"
proof -
  have "map_of chunk key = Some v \<Longrightarrow> AList.update key v chunk = chunk"
    by (rule update_triv)
  then show ?thesis
    by (auto simp: add_def add_key_def)
qed

theorem add_none_left_identity_witness:
  "map_of [(''k'', PNone)] ''k'' = Some PNone \<and>
   add_key [(''k'', PNone)] ''k'' (PInt 3) = Inr [(''k'', PInt 3)] \<and>
   map_of [(''k'', PInt 3)] ''k'' = Some (PInt 3) \<and>
   add_key [(''k'', PInt 3)] ''k'' PNone = Inr [(''k'', PInt 3)] \<and>
   add py_add PNone [PStr ''ab''] = Inr (PStr ''ab'')"
  using add_none_left_identity [of py_add PNone "PStr ''ab''" "[]" "[(''k'', PNone)]" "''k''" "PInt 3"]
    add_none_left_identity [of py_add PNone "PStr ''ab''" "[]" "[(''k'', PInt 3)]" "''k''" "PInt 3"]
  by simp

text \<open>
  C7 as stated fails on the right: \<^verbatim>\<open>add([1, None])\<close> evaluates \<^verbatim>\<open>1 + None\<close>,
  which raises \<^verbatim>\<open>TypeError\<close>, and does not return \<^verbatim>\<open>1\<close>.
\<close>

theorem add_right_none_counterexample:
  "add_values [PInt 1, PNone] = Inl TypeError \<and> add_values [PInt 1, PNone] \<noteq> Inr (PInt 1)"
  by (simp add: add_values_def add_def)

text \<open>
  C8, as the code has it. \<^verbatim>\<open>AddableDict.__add__\<close> never raises on the values of
  the embedding, and under a key that both dicts hold with values other than
  \<^verbatim>\<open>None\<close> whose \<^verbatim>\<open>+\<close> raises \<^verbatim>\<open>TypeError\<close>, the sum holds the right
  operand's value. The fold itself has no such recovery: when \<^verbatim>\<open>a + b\<close> raises
  \<^verbatim>\<open>TypeError\<close>, so does \<^verbatim>\<open>add([a, b])\<close>.
\<close>

theorem AddableDict_add_override:
  "(\<exists>r. AddableDict_add self other = Inr r) \<and>
   (distinct (map fst other) \<longrightarrow> map_of self key = Some a \<longrightarrow> map_of other key = Some b \<longrightarrow>
    a \<noteq> PNone \<longrightarrow> b \<noteq> PNone \<longrightarrow> py_add a b = Inl TypeError \<longrightarrow>
      (\<exists>r. AddableDict_add self other = Inr r \<and> map_of r key = Some b)) \<and>
   (a \<noteq> PNone \<longrightarrow> py_add a b = Inl TypeError \<longrightarrow> add_values [a, b] = Inl TypeError)"
proof (intro conjI impI)
  show total: "\<exists>r. AddableDict_add self other = Inr r"
    unfolding AddableDict_add_def by (rule add_keys_total)
  show "add_values [a, b] = Inl TypeError" if "a \<noteq> PNone" "py_add a b = Inl TypeError"
    using that by (simp add: add_values_def add_def)
  show "\<exists>r. AddableDict_add self other = Inr r \<and> map_of r key = Some b"
    if d: "distinct (map fst other)" and s: "map_of self key = Some a"
      and o: "map_of other key = Some b" and n: "a \<noteq> PNone" "b \<noteq> PNone"
      and t: "py_add a b = Inl TypeError"
  proof -
    from total obtain r where r: "add_keys self other = Inr r"
      unfolding AddableDict_add_def by blast
    from add_keys_at [OF r d o] obtain c
      where c: "add_key self key b = Inr c" and e: "map_of r key = map_of c key" by blast
    from s n t have "add_key self key b = Inr (AList.update key b self)"
      by (simp add: add_key_def try_add_override)
    with c have "map_of c key = Some b" by (auto simp: update_conv')
    with e r show ?thesis by (simp add: AddableDict_add_def)
  qed
qed

theorem AddableDict_add_override_witness:
  "distinct (map fst [(''k'', PStr ''a'')]) \<and>
   map_of [(''k'', PInt 1), (''j'', PInt 2)] ''k'' = Some (PInt 1) \<and>
   map_of [(''k'', PStr ''a'')] ''k'' = Some (PStr ''a'') \<and>
   py_add (PInt 1) (PStr ''a'') = Inl TypeError \<and>
   (\<exists>r. AddableDict_add [(''k'', PInt 1), (''j'', PInt 2)] [(''k'', PStr ''a'')] = Inr r \<and>
        map_of r ''k'' = Some (PStr ''a'')) \<and>
   add_values [PInt 1, PStr ''a''] = Inl TypeError"
  using AddableDict_add_override [of "[(''k'', PInt 1), (''j'', PInt 2)]" "[(''k'', PStr ''a'')]"
      "''k''" "PInt 1" "PStr ''a''"]
  by simp

text \<open>
  C8 as stated fails for the fold: \<^verbatim>\<open>add([1, "a"])\<close> raises \<^verbatim>\<open>TypeError\<close>
  and does not return the right operand.
\<close>

theorem add_mismatch_counterexample:
  "py_add (PInt 1) (PStr ''a'') = Inl TypeError \<and>
   add_values [PInt 1, PStr ''a''] = Inl TypeError \<and>
   add_values [PInt 1, PStr ''a''] \<noteq> Inr (PStr ''a'')"
  by (simp add: add_values_def add_def)

section \<open>Properties of the event translator\<close>

lemma gen_bind_lift_Inl [simp]: "gen_bind (lift (Inl e)) f = ([], Inl e)"
  by (simp add: gen_bind_def lift_def)

lemma gen_bind_lift_Inr [simp]: "gen_bind (lift (Inr v)) f = f v"
  by (simp add: gen_bind_def lift_def split: prod.splits)

text \<open>
  C10. With no patch at all the loop leaves the state \<^verbatim>\<open>None\<close> and the flag
  unset, and the statement after the loop, \<^verbatim>\<open>run_log.state.copy()\<close>, raises
  \<^verbatim>\<open>AttributeError\<close>: nothing is emitted, and no final root end event either.
\<close>

theorem as_event_stream_no_patches:
  "patch_loop radd order None False [] = ([], Inr (None, False)) \<and>
   as_event_stream radd order [] = ([], Inl AttributeError)"
  by (simp add: as_event_stream_def event_stream_from_def final_event_def gen_bind_def)

subsection \<open>The loop body on one sub-run\<close>

lemma lookup_eq_Inr: "lookup d k = Inr v \<longleftrightarrow> map_of d k = Some v"
  by (simp add: lookup_def split: option.splits)

lemma del_key_eq_Inr:
  "del_key d k = Inr d1 \<longleftrightarrow> (\<exists>v. map_of d k = Some v) \<and> d1 = AList.delete k d"
  by (auto simp: del_key_def split: option.splits)

lemma sub_run_eventD:
  "sub_run_event log = Inr (ev, log1) \<Longrightarrow>
     \<exists>d d1. log = PDict d \<and> log1 = PDict d1 \<and> sub_run_dict d = Inr (ev, d1)"
  by (cases log) (auto simp: sub_run_event_def bind_eq_Inr)

lemma sub_run_dictD:
  "sub_run_dict log = Inr (ev, log1) \<Longrightarrow>
     \<exists>k dat t.
        classify log = Inr k \<and>
        (case k of Start \<Rightarrow> bind (start_data log) (\<lambda>d. Inr (d, log))
                 | End \<Rightarrow> end_data log
                 | Stream \<Rightarrow> stream_data log) = Inr (dat, log1) \<and>
        lookup log1 ''type'' = Inr t \<and> event ev = On t k \<and> data ev = dat"
  unfolding sub_run_dict_def by (auto simp: bind_eq_Inr)

lemma classifyD:
  "classify d = Inr k \<Longrightarrow>
     \<exists>end_time. lookup d ''end_time'' = Inr end_time \<and>
       (end_time \<noteq> PNone \<longrightarrow> k = End) \<and>
       (end_time = PNone \<longrightarrow>
          (\<exists>so. lookup d ''streamed_output'' = Inr so \<and>
             (truthy so \<longrightarrow> k = Stream) \<and> (\<not> truthy so \<longrightarrow> k = Start)))"
  unfolding classify_def by (auto simp: bind_eq_Inr split: if_splits)



lemma end_data_old:
  assumes "end_data d = Inr (dat, d1)" and "lookup d ''type'' = Inr t"
    and "is_old_style t = Inr True"
  shows "\<exists>final_output inputs.
           lookup d ''final_output'' = Inr final_output \<and> lookup d ''inputs'' = Inr inputs \<and>
           map_of dat ''output'' = Some final_output \<and> map_of d1 ''final_output'' = None \<and>
           (truthy inputs \<longrightarrow> map_of dat ''input'' = Some inputs \<and> map_of d1 ''inputs'' = None) \<and>
           (\<not> truthy inputs \<longrightarrow>
              map_of dat ''input'' = None \<and> lookup d1 ''inputs'' = Inr inputs)"
  using assms unfolding end_data_def
  by (auto simp: bind_eq_Inr lookup_eq_Inr del_key_eq_Inr delete_conv' split: if_splits)

lemma end_data_new:
  assumes "end_data d = Inr (dat, d1)" and "lookup d ''type'' = Inr t"
    and "is_old_style t = Inr False"
  shows "\<exists>final_output inputs.
           lookup d ''final_output'' = Inr final_output \<and> lookup d ''inputs'' = Inr inputs \<and>
           (final_output = PNone \<longrightarrow>
              map_of dat ''output'' = Some PNone \<and> lookup d1 ''final_output'' = Inr PNone) \<and>
           (\<forall>fo. final_output = PDict fo \<longrightarrow>
              map_of dat ''output'' = Some (dict_get fo ''output'' PNone) \<and>
              map_of d1 ''final_output'' = None) \<and>
           (final_output \<noteq> PNone \<and> (\<forall>fo. final_output \<noteq> PDict fo) \<longrightarrow>
              map_of dat ''output'' = None \<and> lookup d1 ''final_output'' = Inr final_output) \<and>
           (truthy inputs \<longrightarrow>
              (\<exists>v. getitem inputs ''input'' = Inr v \<and> map_of dat ''input'' = Some v) \<and>
              map_of d1 ''inputs'' = None) \<and>
           (\<not> truthy inputs \<longrightarrow>
              map_of dat ''input'' = None \<and> lookup d1 ''inputs'' = Inr inputs)"
  using assms unfolding end_data_def
  by (auto simp: bind_eq_Inr lookup_eq_Inr del_key_eq_Inr delete_conv' update_conv'
      split: if_splits pyval.splits)





subsection \<open>The loop over the touched paths\<close>

lemma gen_bind_eq:
  "gen_bind m f = (evs, r) \<longleftrightarrow>
     (\<exists>e. m = (evs, Inl e) \<and> r = Inl e) \<or>
     (\<exists>e1 v e2. m = (e1, Inr v) \<and> f v = (e2, r) \<and> evs = e1 @ e2)"
  by (cases m) (auto simp: gen_bind_def split: sum.splits prod.splits)

lemma gen_bind_Inl: "gen_bind (evs, Inl e) f = (evs, Inl e)"
  by (simp add: gen_bind_def)

lemma gen_bind_Inr: "gen_bind (evs, Inr v) f = (evs @ fst (f v), snd (f v))"
  by (simp add: gen_bind_def split: prod.splits)

lemma get_logD:
  assumes "get_log st q = Inr log"
  shows "\<exists>d logs. st = Some d \<and> map_of d ''logs'' = Some (PDict logs) \<and>
           map_of logs q = Some log"
proof -
  from assms obtain l where l: "state_getitem st ''logs'' = Inr l" and g: "getitem l q = Inr log"
    by (auto simp: get_log_def bind_eq_Inr)
  from l obtain d where d: "st = Some d" and m: "map_of d ''logs'' = Some l"
    by (cases st) (auto simp: state_getitem_def lookup_eq_Inr)
  from g obtain logs where "l = PDict logs" and "map_of logs q = Some log"
    by (cases l) (auto simp: getitem_def lookup_eq_Inr)
  with d m show ?thesis by simp
qed

lemma get_log_store:
  assumes "get_log (Some d) q = Inr log"
  shows "get_log (Some (store_log d q log1)) p =
           (if p = q then Inr log1 else get_log (Some d) p)"
proof -
  from get_logD [OF assms] obtain logs
    where l: "map_of d ''logs'' = Some (PDict logs)" by auto
  then show ?thesis
    by (simp add: get_log_def state_getitem_def getitem_def store_log_def lookup_def
        update_conv')
qed

lemma store_log_other:
  "k \<noteq> ''logs'' \<Longrightarrow> map_of (store_log d q log1) k = map_of d k"
  by (simp add: store_log_def update_conv' split: option.splits pyval.splits)

lemma sub_run_stepD:
  assumes "sub_run_step st q = Inr (ev, st1)"
  shows "\<exists>d log log1. st = Some d \<and> get_log st q = Inr log \<and>
           sub_run_event log = Inr (ev, log1) \<and> st1 = Some (store_log d q log1)"
proof -
  from assms obtain log log1 where g: "get_log st q = Inr log"
    and s: "sub_run_event log = Inr (ev, log1)"
    and st1: "st1 = map_option (\<lambda>state. store_log state q log1) st"
    by (auto simp: sub_run_step_def bind_eq_Inr)
  from get_logD [OF g] obtain d where "st = Some d" by blast
  with g s st1 show ?thesis by simp
qed

lemma for_paths_sites:
  "for_paths st ps = (evs, r) \<Longrightarrow> map fst evs = map SubRun (take (length evs) ps)"
proof (induction ps arbitrary: st evs r)
  case Nil
  then show ?case by simp
next
  case (Cons p ps)
  show ?case
  proof (cases "sub_run_step st p")
    case (Inl e)
    with Cons.prems show ?thesis by simp
  next
    case (Inr x)
    obtain ev st1 where x: "x = (ev, st1)" by (cases x)
    obtain evs' r' where f: "for_paths st1 ps = (evs', r')" by (cases "for_paths st1 ps")
    from Cons.prems Inr x f have "evs = (SubRun p, ev) # evs'" by simp
    with Cons.IH [OF f] show ?thesis by simp
  qed
qed

lemma for_paths_complete:
  "for_paths st ps = (evs, Inr st') \<Longrightarrow> map fst evs = map SubRun ps"
proof (induction ps arbitrary: st evs)
  case Nil
  then show ?case by simp
next
  case (Cons p ps)
  show ?case
  proof (cases "sub_run_step st p")
    case (Inl e)
    with Cons.prems show ?thesis by simp
  next
    case (Inr x)
    obtain ev st1 where x: "x = (ev, st1)" by (cases x)
    obtain evs' r' where f: "for_paths st1 ps = (evs', r')" by (cases "for_paths st1 ps")
    from Cons.prems Inr x f have "evs = (SubRun p, ev) # evs'" and "r' = Inr st'" by simp_all
    with Cons.IH [of st1 evs'] f show ?thesis by simp
  qed
qed

text \<open>
  When the paths are distinct, the event emitted for a path is the one the loop body
  computes from the object that the state held under that path before the loop.
\<close>

lemma for_paths_event:
  "for_paths st ps = (evs, r) \<Longrightarrow> distinct ps \<Longrightarrow> (s, ev) \<in> set evs \<Longrightarrow>
     \<exists>p log log1. s = SubRun p \<and> p \<in> set ps \<and> get_log st p = Inr log \<and>
        sub_run_event log = Inr (ev, log1)"
proof (induction ps arbitrary: st evs r)
  case Nil
  then show ?case by simp
next
  case (Cons q ps)
  show ?case
  proof (cases "sub_run_step st q")
    case (Inl e)
    with Cons.prems show ?thesis by simp
  next
    case (Inr x)
    obtain ev0 st1 where x: "x = (ev0, st1)" by (cases x)
    obtain evs' r' where f: "for_paths st1 ps = (evs', r')" by (cases "for_paths st1 ps")
    from Cons.prems(1) Inr x f have evs: "evs = (SubRun q, ev0) # evs'" by simp
    from sub_run_stepD [OF Inr [unfolded x]] obtain d log0 log1
      where st: "st = Some d" and g: "get_log st q = Inr log0"
        and sr: "sub_run_event log0 = Inr (ev0, log1)" and st1: "st1 = Some (store_log d q log1)"
      by blast
    from Cons.prems(3) evs consider "(s, ev) = (SubRun q, ev0)" | "(s, ev) \<in> set evs'"
      by auto
    then show ?thesis
    proof cases
      case 1
      with g sr show ?thesis by auto
    next
      case 2
      from Cons.prems(2) have d: "distinct ps" and nq: "q \<notin> set ps" by simp_all
      from Cons.IH [OF f d 2] obtain p log log1'
        where s: "s = SubRun p" and p: "p \<in> set ps" and g': "get_log st1 p = Inr log"
          and sr': "sub_run_event log = Inr (ev, log1')"
        by blast
      from p nq have "p \<noteq> q" by auto
      with g' st st1 g have "get_log st p = Inr log"
        by (simp add: get_log_store)
      with s p sr' show ?thesis by auto
    qed
  qed
qed

lemma path_segments_set:
  "path_segments ops = Inr segs \<Longrightarrow> p \<in> set segs \<Longrightarrow>
     \<exists>x\<in>set ops. startswith (path x) ''/logs/'' \<and> item (split (CHR ''/'') (path x)) 2 = Inr p"
proof (induction ops arbitrary: segs)
  case Nil
  then show ?case by simp
next
  case (Cons x ops)
  show ?case
  proof (cases "startswith (path x) ''/logs/''")
    case True
    with Cons.prems(1) obtain seg segs'
      where seg: "item (split (CHR ''/'') (path x)) 2 = Inr seg"
        and rest: "path_segments ops = Inr segs'" and segs: "segs = seg # segs'"
      by (auto simp: bind_eq_Inr)
    from Cons.prems(2) segs consider "p = seg" | "p \<in> set segs'" by auto
    then show ?thesis
    proof cases
      case 1
      with True seg show ?thesis by auto
    next
      case 2
      from Cons.IH [OF rest 2] show ?thesis by auto
    qed
  next
    case False
    with Cons.prems(1) have "path_segments ops = Inr segs" by simp
    from Cons.IH [OF this Cons.prems(2)] show ?thesis by auto
  qed
qed

lemma root_start_sites: "root_start st y = (evs, r) \<Longrightarrow> (s, ev) \<in> set evs \<Longrightarrow> s = RootStart"
  unfolding root_start_def
  by (auto simp: gen_bind_eq lift_def split: if_splits option.splits)

lemma root_stream_sites: "root_stream st = (evs, r) \<Longrightarrow> (s, ev) \<in> set evs \<Longrightarrow> s = RootStream"
  unfolding root_stream_def
  by (auto simp: gen_bind_eq lift_def split: if_splits option.splits prod.splits)

text \<open>The events of one turn of the loop: root start, then sub-runs, then root stream.\<close>

lemma patch_bodyD:
  assumes "patch_body radd order st y log = (evs, r)"
  shows "(\<exists>e. radd st log = Inl e \<and> evs = [] \<and> r = Inl e) \<or>
         (\<exists>st1 e1 r1. radd st log = Inr st1 \<and> root_start st1 y = (e1, r1) \<and>
            ((\<exists>e. r1 = Inl e \<and> evs = e1 \<and> r = Inl e) \<or>
             (\<exists>y1. r1 = Inr y1 \<and>
                ((\<exists>e. touched_paths log = Inl e \<and> evs = e1 \<and> r = Inl e) \<or>
                 (\<exists>ps e2 r2. touched_paths log = Inr ps \<and>
                    for_paths st1 (order ps) = (e2, r2) \<and>
                    ((\<exists>e. r2 = Inl e \<and> evs = e1 @ e2 \<and> r = Inl e) \<or>
                     (\<exists>st2 e3 r3. r2 = Inr st2 \<and> root_stream st2 = (e3, r3) \<and>
                        evs = e1 @ e2 @ e3 \<and>
                        ((\<exists>e. r3 = Inl e \<and> r = Inl e) \<or>
                         (\<exists>st3. r3 = Inr st3 \<and> r = Inr (st3, y1))))))))))"
proof (cases "radd st log")
  case (Inl e)
  with assms show ?thesis by (simp add: patch_body_def)
next
  case (Inr st1)
  obtain e1 r1 where rs: "root_start st1 y = (e1, r1)" by (cases "root_start st1 y")
  show ?thesis
  proof (cases r1)
    case (Inl e)
    with assms Inr rs show ?thesis by (simp add: patch_body_def gen_bind_Inl gen_bind_Inr)
  next
    case y1: (Inr y1)
    show ?thesis
    proof (cases "touched_paths log")
      case (Inl e)
      with assms Inr rs y1 show ?thesis by (simp add: patch_body_def gen_bind_Inl gen_bind_Inr)
    next
      case ps: (Inr ps)
      obtain e2 r2 where fp: "for_paths st1 (order ps) = (e2, r2)"
        by (cases "for_paths st1 (order ps)")
      show ?thesis
      proof (cases r2)
        case (Inl e)
        with assms Inr rs y1 ps fp show ?thesis by (simp add: patch_body_def gen_bind_Inl gen_bind_Inr)
      next
        case st2: (Inr st2)
        obtain e3 r3 where rt: "root_stream st2 = (e3, r3)" by (cases "root_stream st2")
        show ?thesis
        proof (cases r3)
          case (Inl e)
          with assms Inr rs y1 ps fp st2 rt show ?thesis
            by (simp add: patch_body_def gen_bind_Inl gen_bind_Inr)
        next
          case (Inr st3)
          with assms \<open>radd st log = Inr st1\<close> rs y1 ps fp st2 rt show ?thesis
            by (simp add: patch_body_def gen_bind_Inl gen_bind_Inr)
        qed
      qed
    qed
  qed
qed

lemma path_segments_complete:
  "path_segments ops = Inr segs \<Longrightarrow> x \<in> set ops \<Longrightarrow> startswith (path x) ''/logs/'' \<Longrightarrow>
     \<exists>p. item (split (CHR ''/'') (path x)) 2 = Inr p \<and> p \<in> set segs"
proof (induction ops arbitrary: segs)
  case Nil
  then show ?case by simp
next
  case (Cons y ops)
  show ?case
  proof (cases "startswith (path y) ''/logs/''")
    case True
    with Cons.prems(1) obtain seg segs'
      where seg: "item (split (CHR ''/'') (path y)) 2 = Inr seg"
        and rest: "path_segments ops = Inr segs'" and segs: "segs = seg # segs'"
      by (auto simp: bind_eq_Inr)
    from Cons.prems(2) consider "x = y" | "x \<in> set ops" by auto
    then show ?thesis
    proof cases
      case 1
      with seg segs show ?thesis by simp
    next
      case 2
      from Cons.IH [OF rest 2 Cons.prems(3)] segs show ?thesis by auto
    qed
  next
    case False
    with Cons.prems(1) have rest: "path_segments ops = Inr segs" by simp
    from False Cons.prems(3) have "x \<noteq> y" by auto
    with Cons.prems(2) have "x \<in> set ops" by simp
    from Cons.IH [OF rest this Cons.prems(3)] show ?thesis .
  qed
qed

text \<open>
  C1. In one turn of the loop, with \<open>st1\<close> the state after the patch has been merged,
  every event emitted for a sub-run path \<open>p\<close> belongs to a path that an operation of
  the patch touches (its \<^verbatim>\<open>path\<close> starts with \<^verbatim>\<open>/logs/\<close> and has \<open>p\<close> as
  third component), and its event type is read off the merged object under \<open>p\<close>:
  \<^verbatim>\<open>end\<close> when \<^verbatim>\<open>end_time\<close> is not \<^verbatim>\<open>None\<close>; otherwise \<^verbatim>\<open>stream\<close>
  when \<^verbatim>\<open>streamed_output\<close> is non-empty and \<^verbatim>\<open>start\<close> when it is empty. When
  the turn completes, every operation of the patch whose path starts with
  \<^verbatim>\<open>/logs/\<close> has an event for its third path component, no path has two events,
  and the sub-run events follow the order of the iteration. The iteration order of the
  set is any arrangement of its elements.
\<close>

theorem touched_sub_run_event_kind:
  assumes ord: "\<And>xs. distinct xs \<Longrightarrow> distinct (order xs) \<and> set (order xs) = set xs"
    and merged: "radd st log = Inr st1"
    and body: "patch_body radd order st yielded log = (evs, r)"
  shows "(\<forall>p ev. (SubRun p, ev) \<in> set evs \<longrightarrow>
           (\<exists>x\<in>set log. startswith (path x) ''/logs/'' \<and>
               item (split (CHR ''/'') (path x)) 2 = Inr p) \<and>
           (\<exists>d end_time. get_log st1 p = Inr (PDict d) \<and>
               lookup d ''end_time'' = Inr end_time \<and>
               (end_time \<noteq> PNone \<longrightarrow> kind (event ev) = End) \<and>
               (end_time = PNone \<longrightarrow>
                  (\<exists>so. lookup d ''streamed_output'' = Inr so \<and>
                     (truthy so \<longrightarrow> kind (event ev) = Stream) \<and>
                     (\<not> truthy so \<longrightarrow> kind (event ev) = Start))))) \<and>
         (\<forall>res. r = Inr res \<longrightarrow>
           (\<forall>x\<in>set log. startswith (path x) ''/logs/'' \<longrightarrow>
              (\<exists>p ev. item (split (CHR ''/'') (path x)) 2 = Inr p \<and> (SubRun p, ev) \<in> set evs)) \<and>
           distinct [s \<leftarrow> map fst evs. s \<noteq> RootStart \<and> s \<noteq> RootStream] \<and>
           (\<exists>ps. touched_paths log = Inr ps \<and>
              [s \<leftarrow> map fst evs. s \<noteq> RootStart \<and> s \<noteq> RootStream] = map SubRun (order ps)))"
proof (intro conjI allI impI)
  fix p ev
  assume mem: "(SubRun p, ev) \<in> set evs"
  from patch_bodyD [OF body] merged obtain e1 r1 e2 r2 ps e3
    where rs: "root_start st1 yielded = (e1, r1)"
      and tp: "touched_paths log = Inr ps"
      and fp: "for_paths st1 (order ps) = (e2, r2)"
      and e3: "e3 = [] \<or> (\<exists>st2 r3. root_stream st2 = (e3, r3))"
      and evs: "evs = e1 @ e2 @ e3"
      and ne: "(SubRun p, ev) \<in> set e1 \<or> (SubRun p, ev) \<in> set e2 \<or> (SubRun p, ev) \<in> set e3"
  proof -
    from patch_bodyD [OF body] merged mem
    consider
      (a) e1 r1 where "root_start st1 yielded = (e1, r1)" "evs = e1"
    | (b) e1 r1 ps e2 r2 where "root_start st1 yielded = (e1, r1)"
        "touched_paths log = Inr ps" "for_paths st1 (order ps) = (e2, r2)" "evs = e1 @ e2"
    | (c) e1 r1 ps e2 r2 st2 e3 r3 where "root_start st1 yielded = (e1, r1)"
        "touched_paths log = Inr ps" "for_paths st1 (order ps) = (e2, r2)"
        "root_stream st2 = (e3, r3)" "evs = e1 @ e2 @ e3"
      by auto
    then show ?thesis
    proof cases
      case a
      with mem root_start_sites [of st1 yielded e1 r1 "SubRun p" ev] show ?thesis by simp
    next
      case b
      with mem that [of e1 r1 ps e2 r2 "[]"] show ?thesis by auto
    next
      case c
      with mem that [of e1 r1 ps e2 r2 e3] show ?thesis by auto
    qed
  qed
  have "(SubRun p, ev) \<notin> set e1"
    using root_start_sites [OF rs, of "SubRun p" ev] by auto
  moreover have "(SubRun p, ev) \<notin> set e3"
    using e3 root_stream_sites [of _ e3 _ "SubRun p" ev] by auto
  ultimately have in2: "(SubRun p, ev) \<in> set e2" using ne by simp
  from tp obtain segs where segs: "path_segments log = Inr segs" and ps: "ps = remdups segs"
    by (auto simp: touched_paths_def bind_eq_Inr)
  from ps have dps: "distinct ps" by simp
  from ord [OF dps] have d: "distinct (order ps)" and so: "set (order ps) = set ps"
    by simp_all
  from for_paths_event [OF fp d in2] obtain log0 log1
    where pin: "p \<in> set (order ps)" and g: "get_log st1 p = Inr log0"
      and sr: "sub_run_event log0 = Inr (ev, log1)"
    by auto
  from pin so ps have "p \<in> set segs" by simp
  from path_segments_set [OF segs this]
  show "\<exists>x\<in>set log. startswith (path x) ''/logs/'' \<and>
          item (split (CHR ''/'') (path x)) 2 = Inr p" .
  from sub_run_eventD [OF sr] obtain d0 d1
    where l0: "log0 = PDict d0" and sd: "sub_run_dict d0 = Inr (ev, d1)" by blast
  from sub_run_dictD [OF sd] obtain k t
    where c: "classify d0 = Inr k" and e: "event ev = On t k" by blast
  from e have k: "kind (event ev) = k" by simp
  from classifyD [OF c] g l0 k
  show "\<exists>d end_time. get_log st1 p = Inr (PDict d) \<and>
               lookup d ''end_time'' = Inr end_time \<and>
               (end_time \<noteq> PNone \<longrightarrow> kind (event ev) = End) \<and>
               (end_time = PNone \<longrightarrow>
                  (\<exists>so. lookup d ''streamed_output'' = Inr so \<and>
                     (truthy so \<longrightarrow> kind (event ev) = Stream) \<and>
                     (\<not> truthy so \<longrightarrow> kind (event ev) = Start)))"
    by auto
next
  fix res
  assume r: "r = Inr res"
  from patch_bodyD [OF body] merged r obtain e1 r1 ps e2 st2 e3 r3
    where rs: "root_start st1 yielded = (e1, r1)"
      and tp: "touched_paths log = Inr ps"
      and fp: "for_paths st1 (order ps) = (e2, Inr st2)"
      and rt: "root_stream st2 = (e3, r3)"
      and evs: "evs = e1 @ e2 @ e3"
    by auto
  have f1: "[s \<leftarrow> map fst e1. s \<noteq> RootStart \<and> s \<noteq> RootStream] = []"
    using root_start_sites [OF rs] by (auto simp: filter_empty_conv)
  have f3: "[s \<leftarrow> map fst e3. s \<noteq> RootStart \<and> s \<noteq> RootStream] = []"
    using root_stream_sites [OF rt] by (auto simp: filter_empty_conv)
  have f2: "[s \<leftarrow> map fst e2. s \<noteq> RootStart \<and> s \<noteq> RootStream] = map SubRun (order ps)"
    unfolding for_paths_complete [OF fp] by (induction "order ps") auto
  from evs f1 f2 f3
  have sites: "[s \<leftarrow> map fst evs. s \<noteq> RootStart \<and> s \<noteq> RootStream] = map SubRun (order ps)"
    by simp
  from tp obtain segs where segs: "path_segments log = Inr segs" and ps: "ps = remdups segs"
    by (auto simp: touched_paths_def bind_eq_Inr)
  from ps have "distinct ps" by simp
  from ord [OF this] have d: "distinct (order ps)" and so: "set (order ps) = set ps"
    by simp_all
  show "\<forall>x\<in>set log. startswith (path x) ''/logs/'' \<longrightarrow>
           (\<exists>p ev. item (split (CHR ''/'') (path x)) 2 = Inr p \<and> (SubRun p, ev) \<in> set evs)"
  proof (intro ballI impI)
    fix x
    assume x: "x \<in> set log" and pre: "startswith (path x) ''/logs/''"
    from path_segments_complete [OF segs x pre] obtain p
      where p: "item (split (CHR ''/'') (path x)) 2 = Inr p" and "p \<in> set segs" by blast
    with so ps have "SubRun p \<in> set (map SubRun (order ps))" by simp
    with sites have "SubRun p \<in> set [s \<leftarrow> map fst evs. s \<noteq> RootStart \<and> s \<noteq> RootStream]"
      by simp
    then have "SubRun p \<in> set (map fst evs)" by simp
    then obtain ev where "(SubRun p, ev) \<in> set evs" by auto
    with p show "\<exists>p ev. item (split (CHR ''/'') (path x)) 2 = Inr p \<and> (SubRun p, ev) \<in> set evs"
      by blast
  qed
  show "distinct [s \<leftarrow> map fst evs. s \<noteq> RootStart \<and> s \<noteq> RootStream]"
    unfolding sites using d by (simp add: distinct_map inj_on_def)
  show "\<exists>ps. touched_paths log = Inr ps \<and>
          [s \<leftarrow> map fst evs. s \<noteq> RootStart \<and> s \<noteq> RootStream] = map SubRun (order ps)"
    using tp sites by blast
qed

theorem touched_sub_run_event_kind_witness:
  "fst (patch_body RunLog_add (\<lambda>xs. xs)
     (Some [(''id'', PStr ''r1''), (''name'', PStr ''root''), (''type'', PStr ''chain''),
            (''streamed_output'', PList []), (''final_output'', PNone),
            (''logs'', PDict
               [(''a'', PDict [(''id'', PStr ''s1''), (''name'', PStr ''model''),
                   (''type'', PStr ''llm''), (''tags'', PList []), (''metadata'', PDict []),
                   (''streamed_output'', PList []), (''end_time'', PNone)]),
                (''b'', PDict [(''id'', PStr ''s2''), (''name'', PStr ''search''),
                   (''type'', PStr ''tool''), (''tags'', PList []), (''metadata'', PDict []),
                   (''streamed_output'', PList []), (''inputs'', PDict []),
                   (''final_output'', PStr ''found''), (''end_time'', PNone)])])])
     True
     [\<lparr>op = ''add'', path = ''/logs/a/streamed_output/-'', val = PStr ''tok''\<rparr>,
      \<lparr>op = ''replace'', path = ''/name'', val = PStr ''main''\<rparr>,
      \<lparr>op = ''add'', path = ''/logs/b/end_time'', val = PStr ''t1''\<rparr>,
      \<lparr>op = ''add'', path = ''/logs/a/metadata/k'', val = PInt 1\<rparr>])
   = [(SubRun ''b'',
       \<lparr>event = On (PStr ''tool'') End, name = PStr ''search'', run_id = PStr ''s2'',
          tags = PList [], metadata = PDict [],
          data = [(''output'', PStr ''found'')]\<rparr>),
      (SubRun ''a'',
       \<lparr>event = On (PStr ''llm'') Stream, name = PStr ''model'', run_id = PStr ''s1'',
          tags = PList [], metadata = PDict [(''k'', PInt 1)],
          data = [(''chunk'', PStr ''tok'')]\<rparr>)] \<and>
   touched_paths
     [\<lparr>op = ''add'', path = ''/logs/a/streamed_output/-'', val = PStr ''tok''\<rparr>,
      \<lparr>op = ''replace'', path = ''/name'', val = PStr ''main''\<rparr>,
      \<lparr>op = ''add'', path = ''/logs/b/end_time'', val = PStr ''t1''\<rparr>,
      \<lparr>op = ''add'', path = ''/logs/a/metadata/k'', val = PInt 1\<rparr>]
   = Inr [''b'', ''a''] \<and>
   kind (On (PStr ''llm'') Stream) = Stream \<and> kind (On (PStr ''tool'') End) = End"
proof -
  let ?a = "\<lambda>so m. PDict [(''id'', PStr ''s1''), (''name'', PStr ''model''),
                   (''type'', PStr ''llm''), (''tags'', PList []), (''metadata'', PDict m),
                   (''streamed_output'', PList so), (''end_time'', PNone)]"
  let ?b = "\<lambda>et. PDict [(''id'', PStr ''s2''), (''name'', PStr ''search''),
                   (''type'', PStr ''tool''), (''tags'', PList []), (''metadata'', PDict []),
                   (''streamed_output'', PList []), (''inputs'', PDict []),
                   (''final_output'', PStr ''found''), (''end_time'', et)]"
  let ?b' = "PDict [(''id'', PStr ''s2''), (''name'', PStr ''search''),
                   (''type'', PStr ''tool''), (''tags'', PList []), (''metadata'', PDict []),
                   (''streamed_output'', PList []), (''inputs'', PDict []),
                   (''end_time'', PStr ''t1'')]"
  let ?st = "\<lambda>n a b. Some [(''id'', PStr ''r1''), (''name'', PStr n), (''type'', PStr ''chain''),
            (''streamed_output'', PList []), (''final_output'', PNone),
            (''logs'', PDict [(''a'', a), (''b'', b)])]"
  let ?log = "[\<lparr>op = ''add'', path = ''/logs/a/streamed_output/-'', val = PStr ''tok''\<rparr>,
      \<lparr>op = ''replace'', path = ''/name'', val = PStr ''main''\<rparr>,
      \<lparr>op = ''add'', path = ''/logs/b/end_time'', val = PStr ''t1''\<rparr>,
      \<lparr>op = ''add'', path = ''/logs/a/metadata/k'', val = PInt 1\<rparr>]"
  let ?eva = "\<lparr>event = On (PStr ''llm'') Stream, name = PStr ''model'', run_id = PStr ''s1'',
          tags = PList [], metadata = PDict [(''k'', PInt 1)],
          data = [(''chunk'', PStr ''tok'')]\<rparr>"
  let ?evb = "\<lparr>event = On (PStr ''tool'') End, name = PStr ''search'', run_id = PStr ''s2'',
          tags = PList [], metadata = PDict [],
          data = [(''output'', PStr ''found'')]\<rparr>"
  have ord: "\<And>xs::string list. distinct xs \<Longrightarrow> distinct ((\<lambda>xs. xs) xs) \<and> set ((\<lambda>xs. xs) xs) = set xs"
    by simp
  have m: "RunLog_add (?st ''root'' (?a [] []) (?b PNone)) ?log
             = Inr (?st ''main'' (?a [PStr ''tok''] [(''k'', PInt 1)]) (?b (PStr ''t1'')))"
    by (simp add: RunLog_add_def apply_op_def)
  have seg: "touched_paths ?log = Inr [''b'', ''a'']"
    by (simp add: touched_paths_def startswith_def item_def)
  have suba: "sub_run_event (?a [PStr ''tok''] [(''k'', PInt 1)])
                = Inr (?eva, ?a [] [(''k'', PInt 1)])"
    by (simp add: sub_run_event_def sub_run_dict_def classify_def stream_data_def lookup_def)
  have subb: "sub_run_event (?b (PStr ''t1'')) = Inr (?evb, ?b')"
    by (simp add: sub_run_event_def sub_run_dict_def classify_def end_data_def lookup_def
        del_key_def)
  have stepb: "sub_run_step (?st ''main'' (?a [PStr ''tok''] [(''k'', PInt 1)]) (?b (PStr ''t1''))) ''b''
                 = Inr (?evb, ?st ''main'' (?a [PStr ''tok''] [(''k'', PInt 1)]) ?b')"
    by (simp add: sub_run_step_def get_log_def state_getitem_def getitem_def lookup_def subb
        store_log_def)
  have stepa: "sub_run_step (?st ''main'' (?a [PStr ''tok''] [(''k'', PInt 1)]) ?b') ''a''
                 = Inr (?eva, ?st ''main'' (?a [] [(''k'', PInt 1)]) ?b')"
    by (simp add: sub_run_step_def get_log_def state_getitem_def getitem_def lookup_def suba
        store_log_def)
  have rs: "root_stream (?st ''main'' (?a [] [(''k'', PInt 1)]) ?b')
              = ([], Inr (?st ''main'' (?a [] [(''k'', PInt 1)]) ?b'))"
    by (simp add: root_stream_def state_getitem_def lookup_def)
  have b: "patch_body RunLog_add (\<lambda>xs. xs) (?st ''root'' (?a [] []) (?b PNone)) True ?log
             = ([(SubRun ''b'', ?evb), (SubRun ''a'', ?eva)],
                Inr (?st ''main'' (?a [] [(''k'', PInt 1)]) ?b', True))"
    by (simp add: patch_body_def m root_start_def seg stepa stepb rs gen_bind_Inr)
  from touched_sub_run_event_kind [of "\<lambda>xs. xs", OF ord m b]
  have "kind (event ?eva) = Stream \<and> kind (event ?evb) = End"
    by (simp add: get_log_def state_getitem_def getitem_def lookup_def)
  with seg b show ?thesis by simp
qed

subsection \<open>Stream events\<close>

lemma bind_raise: "bind (bind m (\<lambda>n. Inl e)) f = bind m (\<lambda>n. Inl e)"
  by (cases m) simp_all

lemma lookup_update_other: "k \<noteq> k' \<Longrightarrow> lookup (AList.update k' v d) k = lookup d k"
  by (simp add: lookup_def update_conv')

lemma classify_stream:
  "lookup d ''end_time'' = Inr PNone \<Longrightarrow> lookup d ''streamed_output'' = Inr (PList chunks) \<Longrightarrow>
   chunks \<noteq> [] \<Longrightarrow> classify d = Inr Stream"
  by (simp add: classify_def)

lemma stream_data_many:
  "lookup d ''streamed_output'' = Inr (PList chunks) \<Longrightarrow> length chunks \<noteq> 1 \<Longrightarrow>
   stream_data d = bind (lookup d ''name'') (\<lambda>n. Inl AssertionError)"
  by (simp add: stream_data_def)

lemma stream_data_one:
  "lookup d ''streamed_output'' = Inr (PList [c]) \<Longrightarrow>
   stream_data d = Inr ([(''chunk'', c)], AList.update ''streamed_output'' (PList []) d)"
  by (simp add: stream_data_def)

lemma sub_run_event_many:
  assumes "lookup d ''end_time'' = Inr PNone"
    and "lookup d ''streamed_output'' = Inr (PList chunks)" and "chunks \<noteq> []"
    and "length chunks \<noteq> 1"
  shows "sub_run_event (PDict d) = bind (lookup d ''name'') (\<lambda>n. Inl AssertionError)"
  using assms
  by (simp add: sub_run_event_def sub_run_dict_def classify_stream stream_data_many bind_raise)

lemma sub_run_event_one:
  assumes "lookup d ''end_time'' = Inr PNone"
    and "lookup d ''streamed_output'' = Inr (PList [c])"
  shows "sub_run_event (PDict d) =
           bind (lookup d ''type'') (\<lambda>t.
           bind (lookup d ''name'') (\<lambda>n.
           bind (lookup d ''id'') (\<lambda>i.
           bind (lookup d ''tags'') (\<lambda>tg.
           bind (lookup d ''metadata'') (\<lambda>m.
             Inr (\<lparr>event = On t Stream, name = n, run_id = i, tags = tg, metadata = m,
                    data = [(''chunk'', c)]\<rparr>,
                  PDict (AList.update ''streamed_output'' (PList []) d)))))))"
proof -
  from assms have c: "classify d = Inr Stream" by (simp add: classify_stream)
  show ?thesis
    by (simp add: sub_run_event_def sub_run_dict_def c stream_data_one [OF assms(2)]
        lookup_update_other bind_def split: sum.splits)
qed

lemma root_stream_many:
  assumes "lookup d ''streamed_output'' = Inr (PList chunks)" and "chunks \<noteq> []"
    and "length chunks \<noteq> 1"
  shows "root_stream (Some d) = ([], bind (lookup d ''name'') (\<lambda>n. Inl AssertionError))"
  using assms
  by (cases "lookup d ''name''")
     (simp_all add: root_stream_def state_getitem_def stream_data_many)

lemma root_stream_one:
  assumes "lookup d ''streamed_output'' = Inr (PList [c])"
  shows "root_stream (Some d) =
           (case bind (lookup d ''type'') (\<lambda>t.
                 bind (lookup d ''name'') (\<lambda>n.
                 bind (lookup d ''id'') (\<lambda>i.
                   Inr \<lparr>event = On t Stream, name = n, run_id = i,
                        tags = dict_get d ''tags'' (PList []),
                        metadata = dict_get d ''metadata'' (PDict []),
                        data = [(''chunk'', c)]\<rparr>))) of
              Inl e \<Rightarrow> ([], Inl e)
            | Inr ev \<Rightarrow>
                ([(RootStream, ev)],
                 Inr (Some (AList.update ''streamed_output'' (PList []) d))))"
  using assms
  by (simp add: root_stream_def state_getitem_def stream_data_one lookup_update_other
      dict_get_def update_conv' gen_bind_Inr bind_def split: sum.splits)

lemma for_paths_append:
  "for_paths st (xs @ ys) = gen_bind (for_paths st xs) (\<lambda>st'. for_paths st' ys)"
proof (induction xs arbitrary: st)
  case Nil
  show ?case by (simp add: gen_bind_Inr)
next
  case (Cons x xs)
  show ?case
  proof (cases "sub_run_step st x")
    case (Inl e)
    then show ?thesis by (simp add: gen_bind_Inl)
  next
    case (Inr r)
    obtain ev st1 where r: "r = (ev, st1)" by (cases r)
    obtain evs res where f: "for_paths st1 xs = (evs, res)" by (cases "for_paths st1 xs")
    show ?thesis
      using Inr r f Cons.IH [of st1]
      by (cases res) (simp_all add: gen_bind_Inl gen_bind_Inr split: prod.splits)
  qed
qed

text \<open>An exception raised in a turn of the loop ends the generator: the events of that
  turn up to the exception are the last ones.\<close>

lemma event_stream_from_abort:
  "patch_body radd order st y log = (evs, Inl e) \<Longrightarrow>
   event_stream_from radd order st y (log # later) = (evs, Inl e)"
  by (simp add: event_stream_from_def gen_bind_Inl)

lemma raise_Inl:
  "bind (lookup d ''name'') (\<lambda>n. Inl AssertionError)
     = Inl (case lookup d ''name'' of Inl e \<Rightarrow> e | Inr n \<Rightarrow> AssertionError)"
  by (cases "lookup d ''name''") simp_all

lemma abort_in_sub_run:
  assumes "radd st log = Inr st1" and "root_start st1 y = (e1, Inr y1)"
    and "touched_paths log = Inr ps" and "order ps = pre @ p # rest"
    and "for_paths st1 pre = (e2, Inr st2)" and "sub_run_step st2 p = Inl e"
  shows "event_stream_from radd order st y (log # later) = (e1 @ e2, Inl e)"
proof -
  from assms(6) have "for_paths st2 (p # rest) = ([], Inl e)" by simp
  with assms(5) have "for_paths st1 (pre @ p # rest) = (e2, Inl e)"
    by (simp add: for_paths_append gen_bind_Inr)
  with assms(1-4) have "patch_body radd order st y log = (e1 @ e2, Inl e)"
    by (simp add: patch_body_def gen_bind_Inr gen_bind_Inl)
  then show ?thesis by (rule event_stream_from_abort)
qed

lemma abort_in_root_stream:
  assumes "radd st log = Inr st1" and "root_start st1 y = (e1, Inr y1)"
    and "touched_paths log = Inr ps" and "for_paths st1 (order ps) = (e2, Inr st2)"
    and "root_stream st2 = ([], Inl e)"
  shows "event_stream_from radd order st y (log # later) = (e1 @ e2, Inl e)"
proof -
  from assms have "patch_body radd order st y log = (e1 @ e2, Inl e)"
    by (simp add: patch_body_def gen_bind_Inr gen_bind_Inl)
  then show ?thesis by (rule event_stream_from_abort)
qed

text \<open>
  C2. Let \<^verbatim>\<open>streamed_output\<close> of an object be a non-empty list \<open>chunks\<close>. For a
  sub-run whose \<^verbatim>\<open>end_time\<close> is \<^verbatim>\<open>None\<close> (event type \<^verbatim>\<open>stream\<close>) and for
  the root state after the sub-run events: with a number of chunks other than one the
  code raises \<^verbatim>\<open>AssertionError\<close> (\<^verbatim>\<open>KeyError\<close> when the object has no
  \<^verbatim>\<open>name\<close> for the message); with one chunk \<open>c\<close> the event carries
  \<^verbatim>\<open>data = {"chunk": c}\<close> and \<^verbatim>\<open>streamed_output\<close> becomes the empty list. The
  exception ends the generator: the events emitted so far in that turn are the last,
  no later patch is processed and no final event follows.
\<close>

theorem stream_event_single_chunk:
  assumes so: "lookup d ''streamed_output'' = Inr (PList chunks)" and ne: "chunks \<noteq> []"
  shows "(lookup d ''end_time'' = Inr PNone \<longrightarrow> length chunks \<noteq> 1 \<longrightarrow>
            sub_run_event (PDict d) = bind (lookup d ''name'') (\<lambda>n. Inl AssertionError)) \<and>
   (lookup d ''end_time'' = Inr PNone \<longrightarrow> chunks = [c] \<longrightarrow>
            sub_run_event (PDict d) =
              bind (lookup d ''type'') (\<lambda>t.
              bind (lookup d ''name'') (\<lambda>n.
              bind (lookup d ''id'') (\<lambda>i.
              bind (lookup d ''tags'') (\<lambda>tg.
              bind (lookup d ''metadata'') (\<lambda>m.
                Inr (\<lparr>event = On t Stream, name = n, run_id = i, tags = tg, metadata = m,
                       data = [(''chunk'', c)]\<rparr>,
                     PDict (AList.update ''streamed_output'' (PList []) d)))))))) \<and>
   (length chunks \<noteq> 1 \<longrightarrow>
            root_stream (Some d) = ([], bind (lookup d ''name'') (\<lambda>n. Inl AssertionError))) \<and>
   (chunks = [c] \<longrightarrow>
            root_stream (Some d) =
              (case bind (lookup d ''type'') (\<lambda>t.
                    bind (lookup d ''name'') (\<lambda>n.
                    bind (lookup d ''id'') (\<lambda>i.
                      Inr \<lparr>event = On t Stream, name = n, run_id = i,
                           tags = dict_get d ''tags'' (PList []),
                           metadata = dict_get d ''metadata'' (PDict []),
                           data = [(''chunk'', c)]\<rparr>))) of
                 Inl e \<Rightarrow> ([], Inl e)
               | Inr ev \<Rightarrow>
                   ([(RootStream, ev)],
                    Inr (Some (AList.update ''streamed_output'' (PList []) d))))) \<and>
   (radd st log = Inr st1 \<longrightarrow> root_start st1 y = (e1, Inr y1) \<longrightarrow>
          touched_paths log = Inr ps \<longrightarrow> order ps = pre @ p # rest \<longrightarrow>
          for_paths st1 pre = (e2, Inr st2) \<longrightarrow> get_log st2 p = Inr (PDict d) \<longrightarrow>
          lookup d ''end_time'' = Inr PNone \<longrightarrow> length chunks \<noteq> 1 \<longrightarrow>
            event_stream_from radd order st y (log # later)
              = (e1 @ e2, bind (lookup d ''name'') (\<lambda>n. Inl AssertionError))) \<and>
   (radd st log = Inr st1 \<longrightarrow> root_start st1 y = (e1, Inr y1) \<longrightarrow>
          touched_paths log = Inr ps \<longrightarrow> for_paths st1 (order ps) = (e3, Inr (Some d)) \<longrightarrow>
          length chunks \<noteq> 1 \<longrightarrow>
            event_stream_from radd order st y (log # later)
              = (e1 @ e3, bind (lookup d ''name'') (\<lambda>n. Inl AssertionError)))"
proof (intro conjI)
  show "lookup d ''end_time'' = Inr PNone \<longrightarrow> length chunks \<noteq> 1 \<longrightarrow>
            sub_run_event (PDict d) = bind (lookup d ''name'') (\<lambda>n. Inl AssertionError)"
    using so ne by (simp add: sub_run_event_many)
  show "lookup d ''end_time'' = Inr PNone \<longrightarrow> chunks = [c] \<longrightarrow>
            sub_run_event (PDict d) =
              bind (lookup d ''type'') (\<lambda>t.
              bind (lookup d ''name'') (\<lambda>n.
              bind (lookup d ''id'') (\<lambda>i.
              bind (lookup d ''tags'') (\<lambda>tg.
              bind (lookup d ''metadata'') (\<lambda>m.
                Inr (\<lparr>event = On t Stream, name = n, run_id = i, tags = tg, metadata = m,
                       data = [(''chunk'', c)]\<rparr>,
                     PDict (AList.update ''streamed_output'' (PList []) d)))))))"
    using so sub_run_event_one [of d c] by auto
  show "length chunks \<noteq> 1 \<longrightarrow>
            root_stream (Some d) = ([], bind (lookup d ''name'') (\<lambda>n. Inl AssertionError))"
    using so ne by (simp add: root_stream_many)
  show "chunks = [c] \<longrightarrow>
            root_stream (Some d) =
              (case bind (lookup d ''type'') (\<lambda>t.
                    bind (lookup d ''name'') (\<lambda>n.
                    bind (lookup d ''id'') (\<lambda>i.
                      Inr \<lparr>event = On t Stream, name = n, run_id = i,
                           tags = dict_get d ''tags'' (PList []),
                           metadata = dict_get d ''metadata'' (PDict []),
                           data = [(''chunk'', c)]\<rparr>))) of
                 Inl e \<Rightarrow> ([], Inl e)
               | Inr ev \<Rightarrow>
                   ([(RootStream, ev)],
                    Inr (Some (AList.update ''streamed_output'' (PList []) d))))"
    using so root_stream_one [of d c] by auto
  show "radd st log = Inr st1 \<longrightarrow> root_start st1 y = (e1, Inr y1) \<longrightarrow>
          touched_paths log = Inr ps \<longrightarrow> order ps = pre @ p # rest \<longrightarrow>
          for_paths st1 pre = (e2, Inr st2) \<longrightarrow> get_log st2 p = Inr (PDict d) \<longrightarrow>
          lookup d ''end_time'' = Inr PNone \<longrightarrow> length chunks \<noteq> 1 \<longrightarrow>
            event_stream_from radd order st y (log # later)
              = (e1 @ e2, bind (lookup d ''name'') (\<lambda>n. Inl AssertionError))"
  proof (intro impI)
    assume a: "radd st log = Inr st1" "root_start st1 y = (e1, Inr y1)"
      "touched_paths log = Inr ps" "order ps = pre @ p # rest"
      "for_paths st1 pre = (e2, Inr st2)"
      and g: "get_log st2 p = Inr (PDict d)"
      and et: "lookup d ''end_time'' = Inr PNone" and n1: "length chunks \<noteq> 1"
    let ?e = "case lookup d ''name'' of Inl e \<Rightarrow> e | Inr n \<Rightarrow> AssertionError"
    have "sub_run_event (PDict d) = Inl ?e"
      using sub_run_event_many [OF et so ne n1] by (simp add: raise_Inl)
    with g have "sub_run_step st2 p = Inl ?e" by (simp add: sub_run_step_def)
    from abort_in_sub_run [where radd = radd and order = order, OF a this]
    show "event_stream_from radd order st y (log # later)
              = (e1 @ e2, bind (lookup d ''name'') (\<lambda>n. Inl AssertionError))"
      by (simp add: raise_Inl)
  qed
  show "radd st log = Inr st1 \<longrightarrow> root_start st1 y = (e1, Inr y1) \<longrightarrow>
          touched_paths log = Inr ps \<longrightarrow> for_paths st1 (order ps) = (e3, Inr (Some d)) \<longrightarrow>
          length chunks \<noteq> 1 \<longrightarrow>
            event_stream_from radd order st y (log # later)
              = (e1 @ e3, bind (lookup d ''name'') (\<lambda>n. Inl AssertionError))"
  proof (intro impI)
    assume a: "radd st log = Inr st1" "root_start st1 y = (e1, Inr y1)"
      "touched_paths log = Inr ps" "for_paths st1 (order ps) = (e3, Inr (Some d))"
      and n1: "length chunks \<noteq> 1"
    let ?e = "case lookup d ''name'' of Inl e \<Rightarrow> e | Inr n \<Rightarrow> AssertionError"
    have "root_stream (Some d) = ([], Inl ?e)"
      using root_stream_many [OF so ne n1] by (simp add: raise_Inl)
    from abort_in_root_stream [where radd = radd and order = order, OF a this]
    show "event_stream_from radd order st y (log # later)
              = (e1 @ e3, bind (lookup d ''name'') (\<lambda>n. Inl AssertionError))"
      by (simp add: raise_Inl)
  qed
qed

theorem stream_event_single_chunk_witness:
  "event_stream_from RunLog_add (\<lambda>xs. xs)
     (Some [(''id'', PStr ''r1''), (''name'', PStr ''root''), (''type'', PStr ''chain''),
            (''streamed_output'', PList []), (''final_output'', PNone),
            (''logs'', PDict [(''a'', PDict [(''id'', PStr ''s1''), (''name'', PStr ''step''),
                (''type'', PStr ''llm''), (''tags'', PList []), (''metadata'', PDict []),
                (''streamed_output'', PList []), (''end_time'', PNone)])])])
     True
     [[\<lparr>op = ''add'', path = ''/logs/a/streamed_output/-'', val = PStr ''x''\<rparr>,
       \<lparr>op = ''add'', path = ''/logs/a/streamed_output/-'', val = PStr ''y''\<rparr>],
      [\<lparr>op = ''add'', path = ''/final_output'', val = PStr ''done''\<rparr>]]
   = ([], Inl AssertionError) \<and>
   sub_run_event
     (PDict [(''id'', PStr ''s1''), (''name'', PStr ''step''),
             (''type'', PStr ''llm''), (''tags'', PList []), (''metadata'', PDict []),
             (''streamed_output'', PList [PStr ''x'']), (''end_time'', PNone)])
   = Inr (\<lparr>event = On (PStr ''llm'') Stream, name = PStr ''step'', run_id = PStr ''s1'',
            tags = PList [], metadata = PDict [], data = [(''chunk'', PStr ''x'')]\<rparr>,
          PDict [(''id'', PStr ''s1''), (''name'', PStr ''step''),
             (''type'', PStr ''llm''), (''tags'', PList []), (''metadata'', PDict []),
             (''streamed_output'', PList []), (''end_time'', PNone)])"
proof -
  let ?sub = "\<lambda>so. [(''id'', PStr ''s1''), (''name'', PStr ''step''),
                (''type'', PStr ''llm''), (''tags'', PList []), (''metadata'', PDict []),
                (''streamed_output'', PList so), (''end_time'', PNone)]"
  let ?st = "\<lambda>so. Some [(''id'', PStr ''r1''), (''name'', PStr ''root''), (''type'', PStr ''chain''),
            (''streamed_output'', PList []), (''final_output'', PNone),
            (''logs'', PDict [(''a'', PDict (?sub so))])]"
  let ?log = "[\<lparr>op = ''add'', path = ''/logs/a/streamed_output/-'', val = PStr ''x''\<rparr>,
       \<lparr>op = ''add'', path = ''/logs/a/streamed_output/-'', val = PStr ''y''\<rparr>]"
  let ?later = "[[\<lparr>op = ''add'', path = ''/final_output'', val = PStr ''done''\<rparr>]]"
  have so2: "lookup (?sub [PStr ''x'', PStr ''y'']) ''streamed_output''
               = Inr (PList [PStr ''x'', PStr ''y''])"
    by (simp add: lookup_def)
  have so1: "lookup (?sub [PStr ''x'']) ''streamed_output'' = Inr (PList [PStr ''x''])"
    by (simp add: lookup_def)
  have m: "RunLog_add (?st []) ?log = Inr (?st [PStr ''x'', PStr ''y''])"
    by (simp add: RunLog_add_def apply_op_def)
  have rs: "root_start (?st [PStr ''x'', PStr ''y'']) True = ([], Inr True)"
    by (simp add: root_start_def)
  have tp: "touched_paths ?log = Inr [''a'']"
    by (simp add: touched_paths_def startswith_def item_def)
  have g: "get_log (?st [PStr ''x'', PStr ''y'']) ''a'' = Inr (PDict (?sub [PStr ''x'', PStr ''y'']))"
    by (simp add: get_log_def state_getitem_def getitem_def lookup_def)
  have two:
    "event_stream_from RunLog_add (\<lambda>xs. xs) (?st []) True (?log # ?later) = ([], Inl AssertionError)"
    using stream_event_single_chunk [where d = "?sub [PStr ''x'', PStr ''y'']"
        and chunks = "[PStr ''x'', PStr ''y'']" and radd = RunLog_add and order = "\<lambda>xs. xs"
        and st = "?st []" and log = ?log and ?st1.0 = "?st [PStr ''x'', PStr ''y'']"
        and y = True and ?e1.0 = "[]" and ?y1.0 = True and ps = "[''a'']" and pre = "[]"
        and p = "''a''" and rest = "[]" and ?e2.0 = "[]"
        and ?st2.0 = "?st [PStr ''x'', PStr ''y'']" and later = ?later, OF so2]
      m rs tp g
    by (simp add: lookup_def)
  have one: "sub_run_event (PDict (?sub [PStr ''x''])) =
      Inr (\<lparr>event = On (PStr ''llm'') Stream, name = PStr ''step'', run_id = PStr ''s1'',
            tags = PList [], metadata = PDict [], data = [(''chunk'', PStr ''x'')]\<rparr>,
          PDict (?sub []))"
    using stream_event_single_chunk [where d = "?sub [PStr ''x'']" and chunks = "[PStr ''x'']"
        and c = "PStr ''x''", OF so1]
    by (simp add: lookup_def)
  from two one show ?thesis by simp
qed

subsection \<open>Root events\<close>

lemma only_sub_runs_Nil [simp]: "only_sub_runs []"
  by (simp add: only_sub_runs_def)

lemma only_sub_runs_append [simp]:
  "only_sub_runs (xs @ ys) \<longleftrightarrow> only_sub_runs xs \<and> only_sub_runs ys"
  by (simp add: only_sub_runs_def)

lemma no_root_start_end_Nil [simp]: "no_root_start_end []"
  by (simp add: no_root_start_end_def)

lemma no_root_start_end_append [simp]:
  "no_root_start_end (xs @ ys) \<longleftrightarrow> no_root_start_end xs \<and> no_root_start_end ys"
  by (simp add: no_root_start_end_def)

lemma only_sub_runs_no_root: "only_sub_runs evs \<Longrightarrow> no_root_start_end evs"
  by (auto simp: only_sub_runs_def no_root_start_end_def list_all_iff split: site.splits)

lemma for_paths_only_sub_runs: "for_paths st ps = (evs, r) \<Longrightarrow> only_sub_runs evs"
proof -
  assume "for_paths st ps = (evs, r)"
  from for_paths_sites [OF this] have "\<forall>x\<in>set evs. \<exists>p. fst x = SubRun p"
    by (metis (no_types, lifting) image_iff list.set_map set_map ex_map_conv)
  then show ?thesis
    by (auto simp: only_sub_runs_def list_all_iff)
qed

lemma root_stream_no_root: "root_stream st = (evs, r) \<Longrightarrow> no_root_start_end evs"
  by (auto simp: no_root_start_end_def list_all_iff dest: root_stream_sites)

lemma root_start_flagged: "root_start st True = ([], Inr True)"
  by (simp add: root_start_def)

lemma root_start_no_id:
  "map_of d ''id'' = None \<Longrightarrow> root_start (Some d) False = ([], Inr False)"
  by (simp add: root_start_def map_of_eq_None_iff)

lemma root_start_id:
  "map_of d ''id'' = Some i \<Longrightarrow>
   root_start (Some d) False =
     (case bind (lookup d ''type'') (\<lambda>t. bind (lookup d ''name'') (\<lambda>n.
             Inr \<lparr>event = On t Start, name = n, run_id = i, tags = PList [],
                  metadata = PDict [], data = []\<rparr>)) of
        Inl e \<Rightarrow> ([], Inl e)
      | Inr ev \<Rightarrow> ([(RootStart, ev)], Inr True))"
proof -
  assume i: "map_of d ''id'' = Some i"
  then have "''id'' \<in> fst ` set d" by (metis map_of_eq_None_iff option.distinct(1))
  with i show ?thesis
    by (simp add: root_start_def lookup_def gen_bind_Inr bind_def split: sum.splits option.splits)
qed

text \<open>What a turn of the root start block can do, with the flag unset.\<close>

lemma root_start_cases:
  assumes "root_start st False = (e1, r1)"
  shows "(e1 = [] \<and> (\<exists>e. r1 = Inl e)) \<or>
         (e1 = [] \<and> r1 = Inr False \<and> (\<exists>d. st = Some d \<and> map_of d ''id'' = None)) \<or>
         (\<exists>s d. e1 = [(RootStart, s)] \<and> r1 = Inr True \<and> st = Some d \<and>
            map_of d ''id'' \<noteq> None \<and> event s = On (run_type (event s)) Start \<and>
            tags s = PList [] \<and> metadata s = PDict [] \<and> data s = [])"
proof (cases st)
  case None
  with assms show ?thesis by (auto simp: root_start_def)
next
  case (Some d)
  show ?thesis
  proof (cases "map_of d ''id''")
    case None
    with assms Some root_start_no_id [OF None] show ?thesis by simp
  next
    case (Some i)
    with assms \<open>st = Some d\<close> root_start_id [OF Some] show ?thesis
      by (auto simp: bind_def split: sum.splits)
  qed
qed

lemma for_paths_state:
  "for_paths st ps = (evs, Inr st2) \<Longrightarrow> st = Some d \<Longrightarrow>
     \<exists>d2. st2 = Some d2 \<and> (\<forall>k. k \<noteq> ''logs'' \<longrightarrow> map_of d2 k = map_of d k)"
proof (induction ps arbitrary: st evs d)
  case Nil
  then show ?case by auto
next
  case (Cons q ps)
  show ?case
  proof (cases "sub_run_step st q")
    case (Inl e)
    with Cons.prems show ?thesis by simp
  next
    case (Inr x)
    obtain ev st1 where x: "x = (ev, st1)" by (cases x)
    obtain evs' r' where f: "for_paths st1 ps = (evs', r')" by (cases "for_paths st1 ps")
    from Cons.prems(1) Inr x f have r': "r' = Inr st2" by simp
    from sub_run_stepD [OF Inr [unfolded x]] Cons.prems(2) obtain log1
      where st1: "st1 = Some (store_log d q log1)" by auto
    from Cons.IH [OF f [unfolded r'] st1] obtain d2
      where "st2 = Some d2"
        and "\<forall>k. k \<noteq> ''logs'' \<longrightarrow> map_of d2 k = map_of (store_log d q log1) k"
      by blast
    then show ?thesis by (auto simp: store_log_other)
  qed
qed

lemma stream_data_Inr:
  "stream_data d = Inr (dat, d1) \<Longrightarrow> d1 = AList.update ''streamed_output'' (PList []) d"
  unfolding stream_data_def by (auto simp: bind_eq_Inr split: if_splits)

text \<open>A root stream event is only emitted from a state that has an \<^verbatim>\<open>id\<close>.\<close>

lemma root_stream_cases:
  assumes "root_stream st = (e3, r3)"
  shows "(e3 = [] \<and> (\<exists>e. r3 = Inl e)) \<or> (e3 = [] \<and> r3 = Inr st) \<or>
         (\<exists>ev d. e3 = [(RootStream, ev)] \<and> st = Some d \<and> map_of d ''id'' \<noteq> None \<and>
            r3 = Inr (Some (AList.update ''streamed_output'' (PList []) d)))"
proof (cases st)
  case None
  with assms show ?thesis by (auto simp: root_stream_def state_getitem_def)
next
  case (Some d)
  show ?thesis
  proof (cases "lookup d ''streamed_output''")
    case (Inl e)
    with assms Some show ?thesis by (auto simp: root_stream_def state_getitem_def)
  next
    case (Inr so)
    show ?thesis
    proof (cases "truthy so")
      case False
      with assms Some Inr show ?thesis by (auto simp: root_stream_def state_getitem_def)
    next
      case True
      show ?thesis
      proof (cases "stream_data d")
        case (Inl e)
        with assms Some Inr True show ?thesis
          by (auto simp: root_stream_def state_getitem_def)
      next
        case sd: (Inr x)
        obtain dat d1 where x: "x = (dat, d1)" by (cases x)
        from stream_data_Inr [OF sd [unfolded x]]
        have d1: "d1 = AList.update ''streamed_output'' (PList []) d" .
        have id: "lookup d1 ''id'' = lookup d ''id''"
          unfolding d1 by (simp add: lookup_update_other)
        from assms Some Inr True sd x id d1 show ?thesis
          by (auto simp: root_stream_def state_getitem_def gen_bind_Inr gen_bind_Inl lift_def
              bind_def lookup_def split: sum.splits option.splits)
      qed
    qed
  qed
qed

lemma root_stream_keeps_id:
  assumes "root_stream (Some d) = (e3, Inr st3)"
  shows "\<exists>d3. st3 = Some d3 \<and> map_of d3 ''id'' = map_of d ''id''"
  using root_stream_cases [OF assms] by (auto simp: update_conv')

lemma patch_body_cases [consumes 1, case_names merge start paths sub stream finished]:
  assumes "patch_body radd order st y log = (evs, r)"
  obtains
    (merge) e where "radd st log = Inl e" "evs = []" "r = Inl e"
  | (start) st1 e1 e where "radd st log = Inr st1" "root_start st1 y = (e1, Inl e)"
      "evs = e1" "r = Inl e"
  | (paths) st1 e1 y1 e where "radd st log = Inr st1" "root_start st1 y = (e1, Inr y1)"
      "touched_paths log = Inl e" "evs = e1" "r = Inl e"
  | (sub) st1 e1 y1 ps e2 e where "radd st log = Inr st1" "root_start st1 y = (e1, Inr y1)"
      "touched_paths log = Inr ps" "for_paths st1 (order ps) = (e2, Inl e)"
      "evs = e1 @ e2" "r = Inl e"
  | (stream) st1 e1 y1 ps e2 st2 e3 e where "radd st log = Inr st1"
      "root_start st1 y = (e1, Inr y1)" "touched_paths log = Inr ps"
      "for_paths st1 (order ps) = (e2, Inr st2)" "root_stream st2 = (e3, Inl e)"
      "evs = e1 @ e2 @ e3" "r = Inl e"
  | (finished) st1 e1 y1 ps e2 st2 e3 st3 where "radd st log = Inr st1"
      "root_start st1 y = (e1, Inr y1)" "touched_paths log = Inr ps"
      "for_paths st1 (order ps) = (e2, Inr st2)" "root_stream st2 = (e3, Inr st3)"
      "evs = e1 @ e2 @ e3" "r = Inr (st3, y1)"
proof (cases "radd st log")
  case (Inl e)
  with assms merge show ?thesis by (simp add: patch_body_def)
next
  case (Inr st1)
  obtain e1 r1 where rs: "root_start st1 y = (e1, r1)" by (cases "root_start st1 y")
  show ?thesis
  proof (cases r1)
    case (Inl e)
    with assms Inr rs start show ?thesis
      by (simp add: patch_body_def gen_bind_Inl gen_bind_Inr)
  next
    case y1: (Inr y1)
    show ?thesis
    proof (cases "touched_paths log")
      case (Inl e)
      with assms Inr rs y1 paths show ?thesis
        by (simp add: patch_body_def gen_bind_Inl gen_bind_Inr)
    next
      case ps: (Inr ps)
      obtain e2 r2 where fp: "for_paths st1 (order ps) = (e2, r2)"
        by (cases "for_paths st1 (order ps)")
      show ?thesis
      proof (cases r2)
        case (Inl e)
        with assms Inr rs y1 ps fp sub show ?thesis
          by (simp add: patch_body_def gen_bind_Inl gen_bind_Inr)
      next
        case st2: (Inr st2)
        obtain e3 r3 where rt: "root_stream st2 = (e3, r3)" by (cases "root_stream st2")
        show ?thesis
        proof (cases r3)
          case (Inl e)
          with assms Inr rs y1 ps fp st2 rt stream show ?thesis
            by (simp add: patch_body_def gen_bind_Inl gen_bind_Inr)
        next
          case (Inr st3)
          with assms \<open>radd st log = Inr st1\<close> rs y1 ps fp st2 rt finished show ?thesis
            by (simp add: patch_body_def gen_bind_Inl gen_bind_Inr)
        qed
      qed
    qed
  qed
qed

lemma patch_body_flagged:
  assumes "patch_body radd order st True log = (evs, r)"
  shows "no_root_start_end evs \<and> (\<forall>st' y'. r = Inr (st', y') \<longrightarrow> y')"
  using assms
proof (cases rule: patch_body_cases)
  case (merge e)
  then show ?thesis by simp
next
  case (start st1 e1 e)
  then show ?thesis by (simp add: root_start_flagged)
next
  case (paths st1 e1 y1 e)
  then show ?thesis by (simp add: root_start_flagged)
next
  case (sub st1 e1 y1 ps e2 e)
  with only_sub_runs_no_root [OF for_paths_only_sub_runs [OF sub(4)]] show ?thesis
    by (simp add: root_start_flagged)
next
  case (stream st1 e1 y1 ps e2 st2 e3 e)
  with only_sub_runs_no_root [OF for_paths_only_sub_runs [OF stream(4)]]
    root_stream_no_root [OF stream(5)]
  show ?thesis by (simp add: root_start_flagged)
next
  case (finished st1 e1 y1 ps e2 st2 e3 st3)
  with only_sub_runs_no_root [OF for_paths_only_sub_runs [OF finished(4)]]
    root_stream_no_root [OF finished(5)]
  show ?thesis by (simp add: root_start_flagged)
qed

text \<open>
  A turn that starts with the flag unset either emits sub-run events only and leaves a
  state without \<^verbatim>\<open>id\<close>, or emits the root start first.
\<close>

lemma no_id_turn:
  assumes rs: "root_start st1 False = (e1, Inr y1)"
    and fp: "for_paths st1 qs = (e2, Inr st2)"
    and rt: "root_stream st2 = (e3, r3)" and y1: "\<not> y1"
  shows "e1 = [] \<and> e3 = [] \<and> (\<exists>d. st2 = Some d \<and> map_of d ''id'' = None) \<and>
         (\<forall>st3. r3 = Inr st3 \<longrightarrow> st3 = st2)"
proof -
  from root_start_cases [OF rs] y1 obtain d
    where e1: "e1 = []" and d: "st1 = Some d" "map_of d ''id'' = None" by auto
  from for_paths_state [OF fp d(1)] d(2) obtain d2
    where d2: "st2 = Some d2" "map_of d2 ''id'' = None" by auto
  from root_stream_cases [OF rt] d2
  have "e3 = []" and "\<forall>st3. r3 = Inr st3 \<longrightarrow> st3 = st2" by auto
  with e1 d2 show ?thesis by simp
qed

lemma start_turn:
  assumes rs: "root_start st1 False = (e1, r1)" and y1: "r1 \<noteq> Inr False"
  shows "e1 = [] \<and> (\<exists>e. r1 = Inl e) \<or>
         (\<exists>s. e1 = [(RootStart, s)] \<and> r1 = Inr True \<and> kind (event s) = Start \<and>
            tags s = PList [] \<and> metadata s = PDict [] \<and> data s = [])"
proof -
  from root_start_cases [OF rs] y1 consider
      "e1 = []" "\<exists>e. r1 = Inl e"
    | s where "e1 = [(RootStart, s)]" "r1 = Inr True"
        "event s = On (run_type (event s)) Start" "tags s = PList []"
        "metadata s = PDict []" "data s = []"
    by blast
  then show ?thesis
  proof cases
    case 1
    then show ?thesis by simp
  next
    case 2
    from 2(3) have "kind (event s) = Start" by (metis event_name.sel(2))
    with 2 show ?thesis by simp
  qed
qed

lemma patch_body_unflagged:
  assumes "patch_body radd order st False log = (evs, r)"
  shows "(only_sub_runs evs \<and>
            (\<forall>st' y'. r = Inr (st', y') \<longrightarrow> \<not> y' \<and> (\<exists>d. st' = Some d \<and> map_of d ''id'' = None))) \<or>
         ((\<exists>s post. evs = (RootStart, s) # post \<and> no_root_start_end post \<and>
              kind (event s) = Start \<and> tags s = PList [] \<and> metadata s = PDict [] \<and>
              data s = []) \<and>
            (\<forall>st' y'. r = Inr (st', y') \<longrightarrow> y'))"
  using assms
proof (cases rule: patch_body_cases)
  case (merge e)
  then show ?thesis by simp
next
  case (start st1 e1 e)
  from start_turn [OF start(2)] start(3,4) show ?thesis by auto
next
  case (paths st1 e1 y1 e)
  show ?thesis
  proof (cases y1)
    case True
    with start_turn [OF paths(2)] paths(4,5) show ?thesis by auto
  next
    case False
    with root_start_cases [OF paths(2)] paths(4,5) show ?thesis by auto
  qed
next
  case (sub st1 e1 y1 ps e2 e)
  note o = for_paths_only_sub_runs [OF sub(4)]
  show ?thesis
  proof (cases y1)
    case True
    with start_turn [OF sub(2)] sub(5,6) only_sub_runs_no_root [OF o] show ?thesis by auto
  next
    case False
    with root_start_cases [OF sub(2)] sub(5,6) o show ?thesis by auto
  qed
next
  case (stream st1 e1 y1 ps e2 st2 e3 e)
  note o = for_paths_only_sub_runs [OF stream(4)]
  show ?thesis
  proof (cases y1)
    case True
    with start_turn [OF stream(2)] stream(6,7) only_sub_runs_no_root [OF o]
      root_stream_no_root [OF stream(5)]
    show ?thesis by auto
  next
    case False
    from no_id_turn [OF stream(2,4,5) False] stream(6,7) o show ?thesis by auto
  qed
next
  case (finished st1 e1 y1 ps e2 st2 e3 st3)
  note o = for_paths_only_sub_runs [OF finished(4)]
  show ?thesis
  proof (cases y1)
    case True
    with start_turn [OF finished(2)] finished(6,7) only_sub_runs_no_root [OF o]
      root_stream_no_root [OF finished(5)]
    show ?thesis by auto
  next
    case False
    from no_id_turn [OF finished(2,4,5) False] finished(6,7) o False show ?thesis by auto
  qed
qed

lemma patch_loop_flagged:
  "patch_loop radd order st True logs = (evs, r) \<Longrightarrow>
     no_root_start_end evs \<and> (\<forall>st' y'. r = Inr (st', y') \<longrightarrow> y')"
proof (induction logs arbitrary: st evs r)
  case Nil
  then show ?case by auto
next
  case (Cons log logs)
  obtain e1 r1 where b: "patch_body radd order st True log = (e1, r1)"
    by (cases "patch_body radd order st True log")
  from patch_body_flagged [OF b] have n1: "no_root_start_end e1"
    and y1: "\<forall>st' y'. r1 = Inr (st', y') \<longrightarrow> y'" by blast+
  show ?case
  proof (cases r1)
    case (Inl e)
    with Cons.prems b n1 show ?thesis by (auto simp: gen_bind_Inl)
  next
    case (Inr x)
    obtain st1 yy where x: "x = (st1, yy)" by (cases x)
    with y1 Inr have yy: "yy = True" by simp
    obtain e2 r2 where l: "patch_loop radd order st1 True logs = (e2, r2)"
      by (cases "patch_loop radd order st1 True logs")
    from Cons.prems b Inr x yy l have "evs = e1 @ e2" and "r = r2"
      by (simp_all add: gen_bind_Inr)
    with Cons.IH [OF l] n1 show ?thesis by auto
  qed
qed

lemma patch_loop_unflagged:
  "patch_loop radd order st False logs = (evs, r) \<Longrightarrow>
     (only_sub_runs evs \<and>
        (\<forall>st' y'. r = Inr (st', y') \<longrightarrow>
           \<not> y' \<and> (logs = [] \<and> st' = st \<or> (\<exists>d. st' = Some d \<and> map_of d ''id'' = None)))) \<or>
     ((\<exists>pre s post. evs = pre @ (RootStart, s) # post \<and> only_sub_runs pre \<and>
          no_root_start_end post \<and> kind (event s) = Start \<and> tags s = PList [] \<and>
          metadata s = PDict [] \<and> data s = []) \<and>
        (\<forall>st' y'. r = Inr (st', y') \<longrightarrow> y'))"
proof (induction logs arbitrary: st evs r)
  case Nil
  then show ?case by auto
next
  case (Cons log logs)
  obtain e1 r1 where b: "patch_body radd order st False log = (e1, r1)"
    by (cases "patch_body radd order st False log")
  show ?case
  proof (cases r1)
    case (Inl e)
    with Cons.prems b have evs: "evs = e1" and r: "r = Inl e" by (simp_all add: gen_bind_Inl)
    from patch_body_unflagged [OF b] show ?thesis
      unfolding evs r by (auto intro: exI [of _ "[]"])
  next
    case (Inr x)
    obtain st1 yy where x: "x = (st1, yy)" by (cases x)
    obtain e2 r2 where l: "patch_loop radd order st1 yy logs = (e2, r2)"
      by (cases "patch_loop radd order st1 yy logs")
    from Cons.prems b Inr x l have evs: "evs = e1 @ e2" and r: "r = r2"
      by (simp_all add: gen_bind_Inr)
    from patch_body_unflagged [OF b] Inr x consider
        (unset) d where "only_sub_runs e1" "\<not> yy" "st1 = Some d" "map_of d ''id'' = None"
      | (set) s post where "e1 = (RootStart, s) # post" "no_root_start_end post"
          "kind (event s) = Start" "tags s = PList []" "metadata s = PDict []" "data s = []" "yy"
      by auto
    then show ?thesis
    proof cases
      case unset
      from l unset(2) have l': "patch_loop radd order st1 False logs = (e2, r2)" by simp
      from Cons.IH [OF l'] show ?thesis
      proof
        assume a: "only_sub_runs e2 \<and>
          (\<forall>st' y'. r2 = Inr (st', y') \<longrightarrow>
             \<not> y' \<and> (logs = [] \<and> st' = st1 \<or> (\<exists>d. st' = Some d \<and> map_of d ''id'' = None)))"
        with unset evs r show ?thesis by auto
      next
        assume "(\<exists>pre s post. e2 = pre @ (RootStart, s) # post \<and> only_sub_runs pre \<and>
          no_root_start_end post \<and> kind (event s) = Start \<and> tags s = PList [] \<and>
          metadata s = PDict [] \<and> data s = []) \<and>
          (\<forall>st' y'. r2 = Inr (st', y') \<longrightarrow> y')"
        then obtain pre s post where e2: "e2 = pre @ (RootStart, s) # post"
          and p: "only_sub_runs pre" "no_root_start_end post" "kind (event s) = Start"
            "tags s = PList []" "metadata s = PDict []" "data s = []"
          and y: "\<forall>st' y'. r2 = Inr (st', y') \<longrightarrow> y'"
          by blast
        have "evs = (e1 @ pre) @ (RootStart, s) # post" using evs e2 by simp
        moreover have "only_sub_runs (e1 @ pre)" using unset(1) p(1) by simp
        ultimately show ?thesis using p(2-6) y r by blast
      qed
    next
      case set
      from l set(7) have l': "patch_loop radd order st1 True logs = (e2, r2)" by simp
      from patch_loop_flagged [OF l'] have n2: "no_root_start_end e2"
        and y: "\<forall>st' y'. r2 = Inr (st', y') \<longrightarrow> y'" by blast+
      have "evs = [] @ (RootStart, s) # (post @ e2)" using evs set(1) by simp
      moreover have "no_root_start_end (post @ e2)" using set(2) n2 by simp
      moreover have "only_sub_runs []" by simp
      ultimately show ?thesis using set(3-6) y r by blast
    qed
  qed
qed

lemma final_event_emits:
  assumes "lookup d ''final_output'' = Inr fo" and "lookup d ''type'' = Inr t"
    and "lookup d ''name'' = Inr n" and "lookup d ''id'' = Inr i"
  shows "final_event (Some d) =
           ([(RootEnd, \<lparr>event = On t End, name = n, run_id = i, tags = PList [],
                         metadata = PDict [], data = [(''output'', fo)]\<rparr>)], Inr ())"
  using assms
  by (simp add: final_event_def Let_def lookup_def update_conv' gen_bind_Inr lift_def)

lemma final_event_cases:
  assumes "final_event st = (ef, rf)"
  shows "(ef = [] \<and> (\<exists>e. rf = Inl e)) \<or>
         (\<exists>d e fo. st = Some d \<and> map_of d ''id'' \<noteq> None \<and> ef = [(RootEnd, e)] \<and>
            rf = Inr () \<and> kind (event e) = End \<and> tags e = PList [] \<and>
            metadata e = PDict [] \<and> lookup d ''final_output'' = Inr fo \<and>
            data e = [(''output'', fo)])"
proof (cases st)
  case None
  with assms show ?thesis by (auto simp: final_event_def)
next
  case (Some d)
  let ?d = "AList.update ''metadata'' (PDict []) (AList.update ''tags'' (PList []) d)"
  have k: "lookup ?d ''final_output'' = lookup d ''final_output''"
    "lookup ?d ''type'' = lookup d ''type''" "lookup ?d ''name'' = lookup d ''name''"
    "lookup ?d ''id'' = lookup d ''id''" "lookup ?d ''tags'' = Inr (PList [])"
    "lookup ?d ''metadata'' = Inr (PDict [])"
    by (simp_all add: lookup_def update_conv')
  show ?thesis
  proof (cases "\<exists>fo t n i. lookup d ''final_output'' = Inr fo \<and> lookup d ''type'' = Inr t \<and>
      lookup d ''name'' = Inr n \<and> lookup d ''id'' = Inr i")
    case True
    then obtain fo t n i where l: "lookup d ''final_output'' = Inr fo"
      "lookup d ''type'' = Inr t" "lookup d ''name'' = Inr n" "lookup d ''id'' = Inr i"
      by blast
    from final_event_emits [OF l] assms Some l(1,4) show ?thesis
      by (auto simp: lookup_eq_Inr)
  next
    case False
    then have "\<exists>e. bind (lookup ?d ''final_output'') (\<lambda>output.
                       bind (lookup ?d ''type'') (\<lambda>t.
                       bind (lookup ?d ''name'') (\<lambda>n.
                       bind (lookup ?d ''id'') (\<lambda>i.
                       bind (lookup ?d ''tags'') (\<lambda>tg.
                       bind (lookup ?d ''metadata'') (\<lambda>m.
                         Inr \<lparr>event = On t End, name = n, run_id = i, tags = tg,
                              metadata = m, data = [(''output'', output)]\<rparr>)))))) = Inl e"
      unfolding k
      by (cases "lookup d ''final_output''"; cases "lookup d ''type''";
          cases "lookup d ''name''"; cases "lookup d ''id''") auto
    then obtain e where "final_event st = ([], Inl e)"
      using Some by (auto simp: final_event_def Let_def)
    with assms show ?thesis by auto
  qed
qed

text \<open>
  C3, as the code has it. When the generator consumes the whole patch source without an
  exception, the source was not empty and the events are: sub-run events of turns whose
  merged state had no \<^verbatim>\<open>id\<close> yet, the one root start event (empty data, tags and
  metadata), events that are neither a root start nor a root end, and last the one
  final root end event, with empty tags and metadata and with
  \<^verbatim>\<open>data = {"output": state["final_output"]}\<close> read from the state the loop left.
  When an exception ends the generator, no root end event is emitted, and the events
  hold at most one root start, which precedes every root stream event. The root start
  block does nothing once the flag is set, and with the flag unset it yields exactly when
  the merged state has an \<^verbatim>\<open>id\<close>. The final event is not guarded by any test: it
  is emitted whenever the loop ends with a state that holds \<^verbatim>\<open>final_output\<close>,
  \<^verbatim>\<open>type\<close>, \<^verbatim>\<open>name\<close> and \<^verbatim>\<open>id\<close>.
\<close>

theorem root_bracketing:
  assumes run: "as_event_stream radd order logs = (evs, r)"
  shows "(r = Inr () \<longrightarrow>
            logs \<noteq> [] \<and>
            (\<exists>pre s post e d fo.
               evs = pre @ (RootStart, s) # post @ [(RootEnd, e)] \<and>
               only_sub_runs pre \<and> no_root_start_end post \<and>
               kind (event s) = Start \<and> tags s = PList [] \<and> metadata s = PDict [] \<and>
               data s = [] \<and>
               kind (event e) = End \<and> tags e = PList [] \<and> metadata e = PDict [] \<and>
               patch_loop radd order None False logs
                 = (pre @ (RootStart, s) # post, Inr (Some d, True)) \<and>
               lookup d ''final_output'' = Inr fo \<and> data e = [(''output'', fo)])) \<and>
         ((\<exists>x. r = Inl x) \<longrightarrow>
            only_sub_runs evs \<or>
            (\<exists>pre s post.
               evs = pre @ (RootStart, s) # post \<and> only_sub_runs pre \<and>
               no_root_start_end post \<and> kind (event s) = Start \<and> tags s = PList [] \<and>
               metadata s = PDict [] \<and> data s = [])) \<and>
         root_start st True = ([], Inr True) \<and>
         (map_of d0 ''id'' = None \<longrightarrow> root_start (Some d0) False = ([], Inr False)) \<and>
         (lookup d0 ''id'' = Inr i \<longrightarrow> lookup d0 ''type'' = Inr t \<longrightarrow>
          lookup d0 ''name'' = Inr n \<longrightarrow>
            root_start (Some d0) False =
              ([(RootStart, \<lparr>event = On t Start, name = n, run_id = i, tags = PList [],
                              metadata = PDict [], data = []\<rparr>)], Inr True) \<and>
            (\<forall>evs0 y fo. patch_loop radd order None False logs = (evs0, Inr (Some d0, y)) \<longrightarrow>
               lookup d0 ''final_output'' = Inr fo \<longrightarrow>
                 as_event_stream radd order logs =
                   (evs0 @ [(RootEnd, \<lparr>event = On t End, name = n, run_id = i,
                                       tags = PList [], metadata = PDict [],
                                       data = [(''output'', fo)]\<rparr>)], Inr ())))"
proof (intro conjI impI allI)
  obtain e0 r0 where l: "patch_loop radd order None False logs = (e0, r0)"
    by (cases "patch_loop radd order None False logs")
  note shape = patch_loop_unflagged [OF l]
  {
    assume r: "r = Inr ()"
    from run r l have "\<exists>st1 y1 ef. r0 = Inr (st1, y1) \<and> final_event st1 = (ef, Inr ()) \<and>
        evs = e0 @ ef"
      by (auto simp: as_event_stream_def event_stream_from_def gen_bind_eq)
    then obtain st1 y1 ef where r0: "r0 = Inr (st1, y1)"
      and fe: "final_event st1 = (ef, Inr ())" and evs: "evs = e0 @ ef"
      by blast
    from final_event_cases [OF fe] obtain d e fo
      where d: "st1 = Some d" "map_of d ''id'' \<noteq> None" and ef: "ef = [(RootEnd, e)]"
        and e: "kind (event e) = End" "tags e = PList []" "metadata e = PDict []"
          "lookup d ''final_output'' = Inr fo" "data e = [(''output'', fo)]"
      by auto
    from shape r0 d have y1: "y1"
      and ex: "\<exists>pre s post. e0 = pre @ (RootStart, s) # post \<and> only_sub_runs pre \<and>
          no_root_start_end post \<and> kind (event s) = Start \<and> tags s = PList [] \<and>
          metadata s = PDict [] \<and> data s = []"
      by auto
    from l r0 d(1) show "logs \<noteq> []" by auto
    from ex obtain pre s post where e0: "e0 = pre @ (RootStart, s) # post"
      and p: "only_sub_runs pre" "no_root_start_end post" "kind (event s) = Start"
        "tags s = PList []" "metadata s = PDict []" "data s = []"
      by blast
    have "evs = pre @ (RootStart, s) # post @ [(RootEnd, e)]"
      using evs e0 ef by simp
    moreover have "patch_loop radd order None False logs
                 = (pre @ (RootStart, s) # post, Inr (Some d, True))"
      using l r0 d(1) y1 e0 by simp
    ultimately show "\<exists>pre s post e d fo.
               evs = pre @ (RootStart, s) # post @ [(RootEnd, e)] \<and>
               only_sub_runs pre \<and> no_root_start_end post \<and>
               kind (event s) = Start \<and> tags s = PList [] \<and> metadata s = PDict [] \<and>
               data s = [] \<and>
               kind (event e) = End \<and> tags e = PList [] \<and> metadata e = PDict [] \<and>
               patch_loop radd order None False logs
                 = (pre @ (RootStart, s) # post, Inr (Some d, True)) \<and>
               lookup d ''final_output'' = Inr fo \<and> data e = [(''output'', fo)]"
      using p e by blast
  }
  {
    assume "\<exists>x. r = Inl x"
    then obtain x where r: "r = Inl x" by blast
    have "evs = e0"
    proof (cases r0)
      case (Inl e)
      with run l show ?thesis
        by (simp add: as_event_stream_def event_stream_from_def gen_bind_Inl)
    next
      case (Inr v)
      obtain st1 y1 where v: "v = (st1, y1)" by (cases v)
      obtain ef rf where fe: "final_event st1 = (ef, rf)" by (cases "final_event st1")
      from run l Inr v fe have "evs = e0 @ ef" and "r = rf"
        by (simp_all add: as_event_stream_def event_stream_from_def gen_bind_Inr)
      with final_event_cases [OF fe] r show ?thesis by auto
    qed
    with shape show "only_sub_runs evs \<or>
            (\<exists>pre s post.
               evs = pre @ (RootStart, s) # post \<and> only_sub_runs pre \<and>
               no_root_start_end post \<and> kind (event s) = Start \<and> tags s = PList [] \<and>
               metadata s = PDict [] \<and> data s = [])"
      by blast
  }
  show "root_start st True = ([], Inr True)" by (rule root_start_flagged)
  show "root_start (Some d0) False = ([], Inr False)" if "map_of d0 ''id'' = None"
    using that by (rule root_start_no_id)
  show "root_start (Some d0) False =
              ([(RootStart, \<lparr>event = On t Start, name = n, run_id = i, tags = PList [],
                              metadata = PDict [], data = []\<rparr>)], Inr True)"
    if "lookup d0 ''id'' = Inr i" "lookup d0 ''type'' = Inr t" "lookup d0 ''name'' = Inr n"
  proof -
    from that(1) have "map_of d0 ''id'' = Some i" by (simp add: lookup_eq_Inr)
    from root_start_id [OF this] that(2,3) show ?thesis by simp
  qed
  show "as_event_stream radd order logs =
                   (evs0 @ [(RootEnd, \<lparr>event = On t End, name = n, run_id = i,
                                       tags = PList [], metadata = PDict [],
                                       data = [(''output'', fo)]\<rparr>)], Inr ())"
    if "lookup d0 ''id'' = Inr i" "lookup d0 ''type'' = Inr t" "lookup d0 ''name'' = Inr n"
      "patch_loop radd order None False logs = (evs0, Inr (Some d0, y))"
      "lookup d0 ''final_output'' = Inr fo"
    for evs0 y fo
    using that final_event_emits [of d0 fo t n i]
    by (simp add: as_event_stream_def event_stream_from_def gen_bind_Inr)
qed

theorem root_bracketing_witness:
  "as_event_stream RunLog_add (\<lambda>xs. xs)
     [[\<lparr>op = ''replace'', path = '''',
         val = PDict [(''id'', PStr ''r1''), (''name'', PStr ''root''), (''type'', PStr ''chain''),
                      (''streamed_output'', PList []), (''final_output'', PNone),
                      (''logs'', PDict [])]\<rparr>],
      [\<lparr>op = ''replace'', path = ''/final_output'', val = PStr ''done''\<rparr>]]
   = ([(RootStart, \<lparr>event = On (PStr ''chain'') Start, name = PStr ''root'',
                     run_id = PStr ''r1'', tags = PList [], metadata = PDict [], data = []\<rparr>),
       (RootEnd, \<lparr>event = On (PStr ''chain'') End, name = PStr ''root'',
                   run_id = PStr ''r1'', tags = PList [], metadata = PDict [],
                   data = [(''output'', PStr ''done'')]\<rparr>)], Inr ()) \<and>
   (\<exists>pre s post e. 
       [(RootStart, \<lparr>event = On (PStr ''chain'') Start, name = PStr ''root'',
                     run_id = PStr ''r1'', tags = PList [], metadata = PDict [], data = []\<rparr>),
        (RootEnd, \<lparr>event = On (PStr ''chain'') End, name = PStr ''root'',
                   run_id = PStr ''r1'', tags = PList [], metadata = PDict [],
                   data = [(''output'', PStr ''done'')]\<rparr>)]
         = pre @ (RootStart, s) # post @ [(RootEnd, e)] \<and>
       only_sub_runs pre \<and> no_root_start_end post)"
proof -
  let ?d = "\<lambda>fo. [(''id'', PStr ''r1''), (''name'', PStr ''root''), (''type'', PStr ''chain''),
                      (''streamed_output'', PList []), (''final_output'', fo),
                      (''logs'', PDict [])]"
  let ?p1 = "[\<lparr>op = ''replace'', path = '''', val = PDict (?d PNone)\<rparr>]"
  let ?p2 = "[\<lparr>op = ''replace'', path = ''/final_output'', val = PStr ''done''\<rparr>]"
  let ?s = "\<lparr>event = On (PStr ''chain'') Start, name = PStr ''root'',
                     run_id = PStr ''r1'', tags = PList [], metadata = PDict [], data = []\<rparr>"
  let ?e = "\<lparr>event = On (PStr ''chain'') End, name = PStr ''root'',
                   run_id = PStr ''r1'', tags = PList [], metadata = PDict [],
                   data = [(''output'', PStr ''done'')]\<rparr>"
  have m1: "RunLog_add None ?p1 = Inr (Some (?d PNone))"
    by (simp add: RunLog_add_def apply_op_def)
  have m2: "RunLog_add (Some (?d PNone)) ?p2 = Inr (Some (?d (PStr ''done'')))"
    by (simp add: RunLog_add_def apply_op_def)
  have t1: "touched_paths ?p1 = Inr []" and t2: "touched_paths ?p2 = Inr []"
    by (simp_all add: touched_paths_def startswith_def)
  have rs: "root_start (Some (?d PNone)) False = ([(RootStart, ?s)], Inr True)"
    by (simp add: root_start_def lookup_def gen_bind_Inr lift_def)
  have st: "\<And>fo. root_stream (Some (?d fo)) = ([], Inr (Some (?d fo)))"
    by (simp add: root_stream_def state_getitem_def lookup_def)
  have b1: "patch_body RunLog_add (\<lambda>xs. xs) None False ?p1
              = ([(RootStart, ?s)], Inr (Some (?d PNone), True))"
    by (simp add: patch_body_def m1 rs t1 st gen_bind_Inr)
  have b2: "patch_body RunLog_add (\<lambda>xs. xs) (Some (?d PNone)) True ?p2
              = ([], Inr (Some (?d (PStr ''done'')), True))"
    by (simp add: patch_body_def m2 root_start_flagged t2 st gen_bind_Inr)
  have fe: "final_event (Some (?d (PStr ''done''))) = ([(RootEnd, ?e)], Inr ())"
    by (simp add: final_event_def lookup_def gen_bind_Inr lift_def)
  have run: "as_event_stream RunLog_add (\<lambda>xs. xs) [?p1, ?p2]
               = ([(RootStart, ?s), (RootEnd, ?e)], Inr ())"
    by (simp add: as_event_stream_def event_stream_from_def b1 b2 fe gen_bind_Inr)
  from root_bracketing [OF run]
  have "\<exists>pre s post e. [(RootStart, ?s), (RootEnd, ?e)] = pre @ (RootStart, s) # post @ [(RootEnd, e)]
          \<and> only_sub_runs pre \<and> no_root_start_end post"
    by blast
  with run show ?thesis by simp
qed

text \<open>
  C3 as stated fails for a non-empty patch stream that the translator does not survive:
  a patch that leaves two chunks in the root's \<^verbatim>\<open>streamed_output\<close> raises
  \<^verbatim>\<open>AssertionError\<close>, and the events end with the root start; no final root end
  event is emitted.
\<close>

theorem root_end_counterexample:
  "as_event_stream RunLog_add (\<lambda>xs. xs)
     [[\<lparr>op = ''replace'', path = '''',
         val = PDict [(''id'', PStr ''r1''), (''name'', PStr ''root''), (''type'', PStr ''chain''),
                      (''streamed_output'', PList []), (''final_output'', PNone),
                      (''logs'', PDict [])]\<rparr>],
      [\<lparr>op = ''add'', path = ''/streamed_output/-'', val = PStr ''x''\<rparr>,
       \<lparr>op = ''add'', path = ''/streamed_output/-'', val = PStr ''y''\<rparr>]]
   = ([(RootStart, \<lparr>event = On (PStr ''chain'') Start, name = PStr ''root'',
                     run_id = PStr ''r1'', tags = PList [], metadata = PDict [], data = []\<rparr>)],
      Inl AssertionError)"
proof -
  let ?d = "\<lambda>so. [(''id'', PStr ''r1''), (''name'', PStr ''root''), (''type'', PStr ''chain''),
                      (''streamed_output'', PList so), (''final_output'', PNone),
                      (''logs'', PDict [])]"
  let ?p1 = "[\<lparr>op = ''replace'', path = '''', val = PDict (?d [])\<rparr>]"
  let ?p2 = "[\<lparr>op = ''add'', path = ''/streamed_output/-'', val = PStr ''x''\<rparr>,
       \<lparr>op = ''add'', path = ''/streamed_output/-'', val = PStr ''y''\<rparr>]"
  let ?s = "\<lparr>event = On (PStr ''chain'') Start, name = PStr ''root'',
                     run_id = PStr ''r1'', tags = PList [], metadata = PDict [], data = []\<rparr>"
  have m1: "RunLog_add None ?p1 = Inr (Some (?d []))"
    by (simp add: RunLog_add_def apply_op_def)
  have m2: "RunLog_add (Some (?d [])) ?p2 = Inr (Some (?d [PStr ''x'', PStr ''y'']))"
    by (simp add: RunLog_add_def apply_op_def)
  have t1: "touched_paths ?p1 = Inr []" and t2: "touched_paths ?p2 = Inr []"
    by (simp_all add: touched_paths_def startswith_def)
  have rs: "root_start (Some (?d [])) False = ([(RootStart, ?s)], Inr True)"
    by (simp add: root_start_def lookup_def gen_bind_Inr lift_def)
  have st1: "root_stream (Some (?d [])) = ([], Inr (Some (?d [])))"
    by (simp add: root_stream_def state_getitem_def lookup_def)
  have st2: "root_stream (Some (?d [PStr ''x'', PStr ''y''])) = ([], Inl AssertionError)"
    by (simp add: root_stream_def state_getitem_def stream_data_def lookup_def)
  have b1: "patch_body RunLog_add (\<lambda>xs. xs) None False ?p1
              = ([(RootStart, ?s)], Inr (Some (?d []), True))"
    by (simp add: patch_body_def m1 rs t1 st1 gen_bind_Inr)
  have b2: "patch_body RunLog_add (\<lambda>xs. xs) (Some (?d [])) True ?p2 = ([], Inl AssertionError)"
    by (simp add: patch_body_def m2 root_start_flagged t2 st2 gen_bind_Inr gen_bind_Inl)
  show ?thesis
    by (simp add: as_event_stream_def event_stream_from_def b1 b2 gen_bind_Inr gen_bind_Inl)
qed

subsection \<open>After the end event of a sub-run\<close>

lemma classify_End:
  "classify d = Inr End \<Longrightarrow> \<exists>et. map_of d ''end_time'' = Some et \<and> et \<noteq> PNone"
  unfolding classify_def
  by (auto simp: bind_eq_Inr lookup_eq_Inr split: if_splits)

lemma end_data_keeps:
  "end_data d = Inr (dat, d1) \<Longrightarrow> k \<noteq> ''final_output'' \<Longrightarrow> k \<noteq> ''inputs'' \<Longrightarrow>
   map_of d1 k = map_of d k"
  unfolding end_data_def
  by (auto simp: bind_eq_Inr del_key_eq_Inr delete_conv' split: if_splits pyval.splits)

text \<open>What the end block leaves of \<^verbatim>\<open>inputs\<close> and \<^verbatim>\<open>final_output\<close>.\<close>

lemma end_data_drains:
  assumes e: "end_data d = Inr (dat, d1)"
  shows "\<exists>t b. map_of d1 ''type'' = Some t \<and> is_old_style t = Inr b \<and>
           (case map_of d1 ''inputs'' of None \<Rightarrow> True | Some inputs \<Rightarrow> \<not> truthy inputs) \<and>
           (case map_of d1 ''final_output'' of
              None \<Rightarrow> True
            | Some (PDict fo) \<Rightarrow> False
            | Some final_output \<Rightarrow> \<not> b)"
proof -
  from e obtain t b where t: "lookup d ''type'' = Inr t" and b: "is_old_style t = Inr b"
    unfolding end_data_def by (auto simp: bind_eq_Inr)
  from end_data_keeps [OF e, of "''type''"] t have t1: "map_of d1 ''type'' = Some t"
    by (simp add: lookup_eq_Inr)
  have "(case map_of d1 ''inputs'' of None \<Rightarrow> True | Some inputs \<Rightarrow> \<not> truthy inputs) \<and>
        (case map_of d1 ''final_output'' of
              None \<Rightarrow> True
            | Some (PDict fo) \<Rightarrow> False
            | Some final_output \<Rightarrow> \<not> b)"
  proof (cases b)
    case True
    with b have o: "is_old_style t = Inr True" by simp
    from end_data_old [OF e t o] show ?thesis
      by (auto simp: lookup_eq_Inr)
  next
    case False
    with b have o: "is_old_style t = Inr False" by simp
    from end_data_new [OF e t o] obtain fo inputs
      where n: "fo = PNone \<longrightarrow> lookup d1 ''final_output'' = Inr PNone"
        and dd: "\<forall>x. fo = PDict x \<longrightarrow> map_of d1 ''final_output'' = None"
        and ot: "fo \<noteq> PNone \<and> (\<forall>x. fo \<noteq> PDict x) \<longrightarrow> lookup d1 ''final_output'' = Inr fo"
        and it: "truthy inputs \<longrightarrow> map_of d1 ''inputs'' = None"
        and inn: "\<not> truthy inputs \<longrightarrow> lookup d1 ''inputs'' = Inr inputs"
      by blast
    have inp: "case map_of d1 ''inputs'' of None \<Rightarrow> True | Some inputs \<Rightarrow> \<not> truthy inputs"
      using it inn by (cases "truthy inputs") (auto simp: lookup_eq_Inr)
    have "case map_of d1 ''final_output'' of
            None \<Rightarrow> True
          | Some (PDict fo) \<Rightarrow> False
          | Some final_output \<Rightarrow> \<not> b"
      using n dd ot False by (cases fo) (auto simp: lookup_eq_Inr)
    with inp show ?thesis by simp
  qed
  with t1 b show ?thesis by blast
qed

text \<open>
  An end event whose data hold more than \<^verbatim>\<open>output = None\<close> has deleted
  \<^verbatim>\<open>final_output\<close> or \<^verbatim>\<open>inputs\<close>.
\<close>

lemma end_data_carried:
  assumes e: "end_data d = Inr (dat, d1)"
    and c: "dat \<noteq> []" "dat \<noteq> [(''output'', PNone)]"
  shows "map_of d1 ''final_output'' = None \<or> map_of d1 ''inputs'' = None"
proof -
  from e obtain t b where t: "lookup d ''type'' = Inr t" and b: "is_old_style t = Inr b"
    unfolding end_data_def by (auto simp: bind_eq_Inr)
  show ?thesis
  proof (cases b)
    case True
    with b have o: "is_old_style t = Inr True" by simp
    from end_data_old [OF e t o] show ?thesis by auto
  next
    case False
    with b have o: "is_old_style t = Inr False" by simp
    from e t o c show ?thesis
      unfolding end_data_def
      by (auto simp: bind_eq_Inr del_key_eq_Inr delete_conv' split: if_splits pyval.splits)
  qed
qed

lemma end_leaves_drained:
  assumes "sub_run_dict d = Inr (ev, d1)" and "kind (event ev) = End"
  shows "drained d1 \<and>
         ((data ev \<noteq> [] \<and> data ev \<noteq> [(''output'', PNone)]) \<or>
          is_old_style (run_type (event ev)) = Inr True \<longrightarrow>
            map_of d1 ''final_output'' = None \<or> map_of d1 ''inputs'' = None)"
proof -
  from sub_run_dictD [OF assms(1)] obtain k dat t
    where c: "classify d = Inr k"
      and br: "(case k of Start \<Rightarrow> bind (start_data d) (\<lambda>x. Inr (x, d))
                 | End \<Rightarrow> end_data d
                 | Stream \<Rightarrow> stream_data d) = Inr (dat, d1)"
      and ty: "lookup d1 ''type'' = Inr t"
      and ev: "event ev = On t k" and dat: "data ev = dat"
    by blast
  from ev assms(2) have k: "k = End" by simp
  from br k have e: "end_data d = Inr (dat, d1)" by simp
  from classify_End [OF c [unfolded k]] end_data_keeps [OF e, of "''end_time''"]
  have et: "case map_of d1 ''end_time'' of None \<Rightarrow> False | Some end_time \<Rightarrow> end_time \<noteq> PNone"
    by auto
  from end_data_drains [OF e] obtain t1 b
    where "map_of d1 ''type'' = Some t1" "is_old_style t1 = Inr b"
      "case map_of d1 ''inputs'' of None \<Rightarrow> True | Some inputs \<Rightarrow> \<not> truthy inputs"
      "case map_of d1 ''final_output'' of
              None \<Rightarrow> True
            | Some (PDict fo) \<Rightarrow> False
            | Some final_output \<Rightarrow> \<not> b"
    by blast
  with et have dr: "drained d1" by (simp add: drained_def)
  have old: "map_of d1 ''final_output'' = None"
    if o: "is_old_style (run_type (event ev)) = Inr True"
  proof -
    from end_data_keeps [OF e, of "''type''"] ty have "lookup d ''type'' = Inr t"
      by (simp add: lookup_eq_Inr)
    from end_data_old [OF e this] o ev show ?thesis by auto
  qed
  from dr end_data_carried [OF e] dat old show ?thesis by auto
qed

lemma drained_classify: "drained d \<Longrightarrow> classify d = Inr End"
  by (auto simp: drained_def classify_def lookup_def split: option.splits)

lemma drainedD:
  assumes "drained d"
  shows "\<exists>t b. lookup d ''type'' = Inr t \<and> is_old_style t = Inr b \<and>
           (\<forall>v. lookup d ''inputs'' = Inr v \<longrightarrow> \<not> truthy v) \<and>
           (\<forall>fo. lookup d ''final_output'' = Inr fo \<longrightarrow> \<not> b \<and> (\<forall>x. fo \<noteq> PDict x))"
  using assms
  by (auto simp: drained_def lookup_eq_Inr split: option.splits sum.splits pyval.splits)
     (metis pyval.exhaust)+

lemma drained_end_data:
  assumes "drained d" and "end_data d = Inr (dat, d1)"
  shows "d1 = d \<and> (dat = [] \<or> dat = [(''output'', PNone)])"
proof -
  from drainedD [OF assms(1)] obtain t b
    where t: "lookup d ''type'' = Inr t" and b: "is_old_style t = Inr b"
      and inp: "\<And>v. lookup d ''inputs'' = Inr v \<Longrightarrow> \<not> truthy v"
      and out: "\<And>fo. lookup d ''final_output'' = Inr fo \<Longrightarrow> \<not> b \<and> (\<forall>x. fo \<noteq> PDict x)"
    by blast
  from assms(2) t b obtain fo where fo: "lookup d ''final_output'' = Inr fo"
    unfolding end_data_def by (auto simp: bind_eq_Inr split: if_splits)
  from out [OF fo] b have nb: "is_old_style t = Inr False" and nd: "\<forall>x. fo \<noteq> PDict x"
    by simp_all
  from assms(2) t nb fo nd inp show ?thesis
    unfolding end_data_def
    by (cases fo) (auto simp: bind_eq_Inr split: if_splits)
qed

text \<open>
  Processing a drained object again leaves it as it is; the event, when there is one, is
  an end event whose data are empty or hold \<^verbatim>\<open>output = None\<close>.
\<close>

lemma drained_sub_run:
  assumes "drained d" and "sub_run_dict d = Inr (ev, d1)"
  shows "d1 = d \<and> kind (event ev) = End \<and> (data ev = [] \<or> data ev = [(''output'', PNone)])"
proof -
  from sub_run_dictD [OF assms(2)] obtain k dat t
    where c: "classify d = Inr k"
      and br: "(case k of Start \<Rightarrow> bind (start_data d) (\<lambda>x. Inr (x, d))
                 | End \<Rightarrow> end_data d
                 | Stream \<Rightarrow> stream_data d) = Inr (dat, d1)"
      and ev: "event ev = On t k" and dat: "data ev = dat"
    by blast
  from c drained_classify [OF assms(1)] have k: "k = End" by simp
  from br k have "end_data d = Inr (dat, d1)" by simp
  from drained_end_data [OF assms(1) this] ev k dat show ?thesis by simp
qed

text \<open>
  Processing a drained object that has lost \<^verbatim>\<open>final_output\<close> or \<^verbatim>\<open>inputs\<close>
  reads the deleted key: \<^verbatim>\<open>KeyError\<close>.
\<close>

lemma drained_missing_raises:
  assumes dr: "drained d"
    and mi: "map_of d ''final_output'' = None \<or> map_of d ''inputs'' = None"
  shows "sub_run_dict d = Inl KeyError"
proof -
  from drainedD [OF dr] obtain t b
    where t: "lookup d ''type'' = Inr t" and b: "is_old_style t = Inr b"
      and out: "\<And>fo. lookup d ''final_output'' = Inr fo \<Longrightarrow> \<not> b \<and> (\<forall>x. fo \<noteq> PDict x)"
    by blast
  have e: "end_data d = Inl KeyError"
  proof (cases "map_of d ''final_output''")
    case None
    then have "lookup d ''final_output'' = Inl KeyError" by (simp add: lookup_def)
    with t b show ?thesis by (simp add: end_data_def)
  next
    case (Some fo)
    then have fo: "lookup d ''final_output'' = Inr fo" by (simp add: lookup_def)
    from out [OF fo] b have nb: "is_old_style t = Inr False" and nd: "\<forall>x. fo \<noteq> PDict x"
      by simp_all
    from mi Some have "lookup d ''inputs'' = Inl KeyError" by (simp add: lookup_def)
    with t nb fo nd show ?thesis
      by (cases fo) (simp_all add: end_data_def)
  qed
  show ?thesis
    by (simp add: sub_run_dict_def drained_classify [OF dr] e)
qed

lemma drained_fields:
  assumes "drained d"
    and "\<forall>k\<in>{''end_time'', ''type'', ''inputs'', ''final_output''}. map_of d' k = map_of d k"
  shows "drained d'"
proof -
  from assms(2) have "map_of d' ''end_time'' = map_of d ''end_time''"
    "map_of d' ''type'' = map_of d ''type''" "map_of d' ''inputs'' = map_of d ''inputs''"
    "map_of d' ''final_output'' = map_of d ''final_output''"
    by simp_all
  then have "drained d' = drained d"
    unfolding drained_def by (simp cong: option.case_cong pyval.case_cong sum.case_cong)
  with assms(1) show ?thesis by simp
qed

lemma root_stream_get_log:
  assumes "root_stream st = (e3, Inr st3)"
  shows "get_log st3 p = get_log st p"
  using root_stream_cases [OF assms]
  by (auto simp: get_log_def state_getitem_def lookup_def update_conv')

text \<open>
  One path of the loop, on a state that holds a drained object \<open>d\<close> under \<open>p\<close>: the
  object stays, and an event for \<open>p\<close> carries no data; when \<open>d\<close> has lost a key, the
  step for \<open>p\<close> raises.
\<close>

lemma sub_run_step_drained:
  assumes inv: "get_log st p = Inr (PDict d)" "drained d"
    and step: "sub_run_step st q = Inr (ev, st1)"
  shows "get_log st1 p = Inr (PDict d) \<and>
         (q = p \<longrightarrow> kind (event ev) = End \<and> (data ev = [] \<or> data ev = [(''output'', PNone)]) \<and>
            \<not> (map_of d ''final_output'' = None \<or> map_of d ''inputs'' = None))"
proof -
  from sub_run_stepD [OF step] obtain d0 log log1
    where st: "st = Some d0" and g: "get_log st q = Inr log"
      and sr: "sub_run_event log = Inr (ev, log1)" and st1: "st1 = Some (store_log d0 q log1)"
    by blast
  show ?thesis
  proof (cases "q = p")
    case True
    with g inv(1) have log: "log = PDict d" by simp
    from sub_run_eventD [OF sr] log obtain d1
      where l1: "log1 = PDict d1" and sd: "sub_run_dict d = Inr (ev, d1)" by auto
    from drained_sub_run [OF inv(2) sd]
    have d1: "d1 = d" and good: "kind (event ev) = End"
      "data ev = [] \<or> data ev = [(''output'', PNone)]" by simp_all
    have nm: "\<not> (map_of d ''final_output'' = None \<or> map_of d ''inputs'' = None)"
    proof
      assume "map_of d ''final_output'' = None \<or> map_of d ''inputs'' = None"
      from drained_missing_raises [OF inv(2) this] sd show False by simp
    qed
    from g st have "get_log (Some d0) q = Inr log" by simp
    from get_log_store [OF this, of log1 p] True st1 l1 d1
    have "get_log st1 p = Inr (PDict d)" by simp
    with good nm show ?thesis by auto
  next
    case False
    from g st have "get_log (Some d0) q = Inr log" by simp
    from get_log_store [OF this, of log1 p] False st1 st inv(1)
    have "get_log st1 p = Inr (PDict d)" by simp
    with False show ?thesis by auto
  qed
qed

lemma for_paths_drained:
  "for_paths st qs = (evs, r) \<Longrightarrow> get_log st p = Inr (PDict d) \<Longrightarrow> drained d \<Longrightarrow>
     (\<forall>ev. (SubRun p, ev) \<in> set evs \<longrightarrow>
        kind (event ev) = End \<and> (data ev = [] \<or> data ev = [(''output'', PNone)]) \<and>
        \<not> (map_of d ''final_output'' = None \<or> map_of d ''inputs'' = None)) \<and>
     (\<forall>st2. r = Inr st2 \<longrightarrow>
        get_log st2 p = Inr (PDict d) \<and>
        (p \<in> set qs \<longrightarrow> \<not> (map_of d ''final_output'' = None \<or> map_of d ''inputs'' = None)))"
proof (induction qs arbitrary: st evs r)
  case Nil
  then show ?case by auto
next
  case (Cons q qs)
  show ?case
  proof (cases "sub_run_step st q")
    case (Inl e)
    with Cons.prems show ?thesis by auto
  next
    case (Inr x)
    obtain ev0 st1 where x: "x = (ev0, st1)" by (cases x)
    obtain evs' r' where f: "for_paths st1 qs = (evs', r')" by (cases "for_paths st1 qs")
    from Cons.prems(1) Inr x f have evs: "evs = (SubRun q, ev0) # evs'" and r: "r = r'"
      by simp_all
    from sub_run_step_drained [OF Cons.prems(2,3) Inr [unfolded x]]
    have g1: "get_log st1 p = Inr (PDict d)"
      and good: "q = p \<longrightarrow> kind (event ev0) = End \<and>
                   (data ev0 = [] \<or> data ev0 = [(''output'', PNone)]) \<and>
                   \<not> (map_of d ''final_output'' = None \<or> map_of d ''inputs'' = None)"
      by simp_all
    from Cons.IH [OF f g1 Cons.prems(3)] evs r good show ?thesis by auto
  qed
qed

text \<open>A path that the loop does not visit keeps its object.\<close>

lemma for_paths_other:
  "for_paths st qs = (evs, Inr st2) \<Longrightarrow> p \<notin> set qs \<Longrightarrow> get_log st p = Inr l \<Longrightarrow>
   get_log st2 p = Inr l"
proof (induction qs arbitrary: st evs)
  case Nil
  then show ?case by auto
next
  case (Cons q qs)
  show ?case
  proof (cases "sub_run_step st q")
    case (Inl e)
    with Cons.prems show ?thesis by simp
  next
    case (Inr x)
    obtain ev0 st1 where x: "x = (ev0, st1)" by (cases x)
    obtain evs' r' where f: "for_paths st1 qs = (evs', r')" by (cases "for_paths st1 qs")
    from Cons.prems(1) Inr x f have r': "r' = Inr st2" by simp
    from sub_run_stepD [OF Inr [unfolded x]] obtain d0 log log1
      where st: "st = Some d0" and g: "get_log st q = Inr log"
        and st1: "st1 = Some (store_log d0 q log1)"
      by blast
    from Cons.prems(2) have pq: "p \<noteq> q" and pn: "p \<notin> set qs" by auto
    from g st have "get_log (Some d0) q = Inr log" by simp
    from get_log_store [OF this, of log1 p] pq st1 st Cons.prems(3)
    have "get_log st1 p = Inr l" by simp
    from Cons.IH [OF f [unfolded r'] pn this] show ?thesis .
  qed
qed

text \<open>
  The loop of the turn that emits the end event for \<open>p\<close> writes the drained object
  back into the state.
\<close>

lemma for_paths_ends:
  "for_paths st qs = (evs, Inr st2) \<Longrightarrow> distinct qs \<Longrightarrow> (SubRun p, ev0) \<in> set evs \<Longrightarrow>
   kind (event ev0) = End \<Longrightarrow>
     \<exists>d1. get_log st2 p = Inr (PDict d1) \<and> drained d1 \<and>
       ((data ev0 \<noteq> [] \<and> data ev0 \<noteq> [(''output'', PNone)]) \<or>
       is_old_style (run_type (event ev0)) = Inr True \<longrightarrow>
          map_of d1 ''final_output'' = None \<or> map_of d1 ''inputs'' = None)"
proof (induction qs arbitrary: st evs)
  case Nil
  then show ?case by simp
next
  case (Cons q qs)
  show ?case
  proof (cases "sub_run_step st q")
    case (Inl e)
    with Cons.prems show ?thesis by simp
  next
    case (Inr x)
    obtain evq st1 where x: "x = (evq, st1)" by (cases x)
    obtain evs' r' where f: "for_paths st1 qs = (evs', r')" by (cases "for_paths st1 qs")
    from Cons.prems(1) Inr x f have evs: "evs = (SubRun q, evq) # evs'" and r': "r' = Inr st2"
      by simp_all
    note f' = f [unfolded r']
    from Cons.prems(2) have dq: "distinct qs" and nq: "q \<notin> set qs" by simp_all
    show ?thesis
    proof (cases "(SubRun p, ev0) \<in> set evs'")
      case True
      from Cons.IH [OF f' dq True Cons.prems(4)] show ?thesis .
    next
      case False
      with Cons.prems(3) evs have pq: "p = q" and e0: "ev0 = evq" by auto
      from sub_run_stepD [OF Inr [unfolded x]] obtain d0 log log1
        where st: "st = Some d0" and g: "get_log st q = Inr log"
          and sr: "sub_run_event log = Inr (evq, log1)"
          and st1: "st1 = Some (store_log d0 q log1)"
        by blast
      from sub_run_eventD [OF sr] obtain dd d1
        where l1: "log1 = PDict d1" and sd: "sub_run_dict dd = Inr (evq, d1)" by blast
      from end_leaves_drained [OF sd] Cons.prems(4) e0
      have dr: "drained d1"
        and ca: "(data ev0 \<noteq> [] \<and> data ev0 \<noteq> [(''output'', PNone)]) \<or>
        is_old_style (run_type (event ev0)) = Inr True \<longrightarrow>
          map_of d1 ''final_output'' = None \<or> map_of d1 ''inputs'' = None"
        by simp_all
      from g st have "get_log (Some d0) q = Inr log" by simp
      from get_log_store [OF this, of log1 q] st1 l1
      have "get_log st1 q = Inr (PDict d1)" by simp
      from for_paths_other [OF f' nq this] pq dr ca show ?thesis by auto
    qed
  qed
qed

lemma touched_paths_distinct: "touched_paths log = Inr ps \<Longrightarrow> distinct ps"
  by (auto simp: touched_paths_def bind_eq_Inr)

text \<open>
  A turn that emits an end event for \<open>p\<close> and completes leaves a drained object under
  \<open>p\<close>; when the event carried more than \<^verbatim>\<open>output = None\<close>, the object has lost
  \<^verbatim>\<open>final_output\<close> or \<^verbatim>\<open>inputs\<close>.
\<close>

lemma patch_body_ends:
  assumes ord: "\<And>xs. distinct xs \<Longrightarrow> distinct (order xs) \<and> set (order xs) = set xs"
    and body: "patch_body radd order st y log = (e, Inr (st3, y3))"
    and ended: "(SubRun p, ev0) \<in> set e" "kind (event ev0) = End"
  shows "\<exists>d1. get_log st3 p = Inr (PDict d1) \<and> drained d1 \<and>
           ((data ev0 \<noteq> [] \<and> data ev0 \<noteq> [(''output'', PNone)]) \<or>
           is_old_style (run_type (event ev0)) = Inr True \<longrightarrow>
              map_of d1 ''final_output'' = None \<or> map_of d1 ''inputs'' = None)"
proof -
  from body show ?thesis
  proof (cases rule: patch_body_cases)
    case (finished st1 e1 y1 ps e2 st2 e3 st3')
    from finished(7) have st3: "st3' = st3" by simp
    from root_start_sites [OF finished(2), of "SubRun p" ev0]
    have n1: "(SubRun p, ev0) \<notin> set e1" by auto
    from root_stream_sites [OF finished(5), of "SubRun p" ev0]
    have n3: "(SubRun p, ev0) \<notin> set e3" by auto
    from ended(1) finished(6) n1 n3 have in2: "(SubRun p, ev0) \<in> set e2" by simp
    from ord [OF touched_paths_distinct [OF finished(3)]] have d: "distinct (order ps)" by simp
    from for_paths_ends [OF finished(4) d in2 ended(2)]
      root_stream_get_log [OF finished(5), of p] st3
    show ?thesis by simp
  qed simp_all
qed

text \<open>
  One turn on a state that holds a drained object \<open>d\<close> under \<open>p\<close>, with a patch that
  leaves the four fields of \<open>p\<close> as they are.
\<close>

lemma patch_body_drained:
  assumes body: "patch_body radd order st y log = (evs, r)"
    and inv: "get_log st p = Inr (PDict d)" "drained d"
    and unrelated: "\<And>s'. radd st log = Inr s' \<Longrightarrow>
        \<exists>d'. get_log s' p = Inr (PDict d') \<and>
          (\<forall>k\<in>{''end_time'', ''type'', ''inputs'', ''final_output''}. map_of d' k = map_of d k)"
  shows "(\<forall>ev. (SubRun p, ev) \<in> set evs \<longrightarrow>
            kind (event ev) = End \<and> (data ev = [] \<or> data ev = [(''output'', PNone)]) \<and>
            \<not> (map_of d ''final_output'' = None \<or> map_of d ''inputs'' = None)) \<and>
         (\<forall>st' y'. r = Inr (st', y') \<longrightarrow>
            (\<exists>d'. get_log st' p = Inr (PDict d') \<and> drained d' \<and>
               map_of d' ''final_output'' = map_of d ''final_output'' \<and>
               map_of d' ''inputs'' = map_of d ''inputs'') \<and>
            (\<forall>ps. touched_paths log = Inr ps \<longrightarrow> p \<in> set (order ps) \<longrightarrow>
               \<not> (map_of d ''final_output'' = None \<or> map_of d ''inputs'' = None)))"
proof -
  have merged: "\<exists>d'. get_log st1 p = Inr (PDict d') \<and> drained d' \<and>
                 map_of d' ''final_output'' = map_of d ''final_output'' \<and>
                 map_of d' ''inputs'' = map_of d ''inputs''"
    if "radd st log = Inr st1" for st1
  proof -
    from unrelated [OF that] obtain d' where g: "get_log st1 p = Inr (PDict d')"
      and k: "\<forall>k\<in>{''end_time'', ''type'', ''inputs'', ''final_output''}. map_of d' k = map_of d k"
      by blast
    from drained_fields [OF inv(2) k] g k show ?thesis by simp
  qed
  have e1: "(SubRun p, ev) \<notin> set e1" if "root_start st1 y = (e1, r1)" for st1 e1 r1 ev
    using root_start_sites [OF that, of "SubRun p" ev] by auto
  have e3: "(SubRun p, ev) \<notin> set e3" if "root_stream st2 = (e3, r3)" for st2 e3 r3 ev
    using root_stream_sites [OF that, of "SubRun p" ev] by auto
  from body show ?thesis
  proof (cases rule: patch_body_cases)
    case (merge e)
    then show ?thesis by simp
  next
    case (start st1 e1 e)
    with e1 [OF start(2)] show ?thesis by simp
  next
    case (paths st1 e1 y1 e)
    with e1 [OF paths(2)] show ?thesis by simp
  next
    case (sub st1 e1 y1 ps e2 e)
    from merged [OF sub(1)] obtain d' where d': "get_log st1 p = Inr (PDict d')" "drained d'"
      and same: "map_of d' ''final_output'' = map_of d ''final_output''"
        "map_of d' ''inputs'' = map_of d ''inputs''"
      by blast
    from for_paths_drained [OF sub(4) d'] e1 [OF sub(2)] sub(5,6) same show ?thesis by auto
  next
    case (stream st1 e1 y1 ps e2 st2 e3 e)
    from merged [OF stream(1)] obtain d' where d': "get_log st1 p = Inr (PDict d')" "drained d'"
      and same: "map_of d' ''final_output'' = map_of d ''final_output''"
        "map_of d' ''inputs'' = map_of d ''inputs''"
      by blast
    from for_paths_drained [OF stream(4) d'] e1 [OF stream(2)] e3 [OF stream(5)] stream(6,7) same
    show ?thesis by auto
  next
    case (finished st1 e1 y1 ps e2 st2 e3 st3)
    from merged [OF finished(1)] obtain d' where d': "get_log st1 p = Inr (PDict d')" "drained d'"
      and same: "map_of d' ''final_output'' = map_of d ''final_output''"
        "map_of d' ''inputs'' = map_of d ''inputs''"
      by blast
    note fp = for_paths_drained [OF finished(4) d']
    from fp have evs2: "\<forall>ev. (SubRun p, ev) \<in> set e2 \<longrightarrow>
        kind (event ev) = End \<and> (data ev = [] \<or> data ev = [(''output'', PNone)]) \<and>
        \<not> (map_of d ''final_output'' = None \<or> map_of d ''inputs'' = None)"
      using same by simp
    from fp have g2: "get_log st2 p = Inr (PDict d')"
      and t2: "p \<in> set (order ps) \<longrightarrow>
                 \<not> (map_of d ''final_output'' = None \<or> map_of d ''inputs'' = None)"
      using same by simp_all
    from g2 root_stream_get_log [OF finished(5), of p]
    have g3: "get_log st3 p = Inr (PDict d')" by simp
    have a: "\<forall>ev. (SubRun p, ev) \<in> set evs \<longrightarrow>
            kind (event ev) = End \<and> (data ev = [] \<or> data ev = [(''output'', PNone)]) \<and>
            \<not> (map_of d ''final_output'' = None \<or> map_of d ''inputs'' = None)"
      using evs2 e1 [OF finished(2)] e3 [OF finished(5)] finished(6) by simp
    have b: "\<forall>st' y'. r = Inr (st', y') \<longrightarrow>
            (\<exists>d'. get_log st' p = Inr (PDict d') \<and> drained d' \<and>
               map_of d' ''final_output'' = map_of d ''final_output'' \<and>
               map_of d' ''inputs'' = map_of d ''inputs'') \<and>
            (\<forall>ps. touched_paths log = Inr ps \<longrightarrow> p \<in> set (order ps) \<longrightarrow>
               \<not> (map_of d ''final_output'' = None \<or> map_of d ''inputs'' = None))"
      using g3 d'(2) same t2 finished(3,7) by simp
    from a b show ?thesis by (rule conjI)
  qed
qed

text \<open>
  The later turns, on a state that holds a drained object \<open>d\<close> under \<open>p\<close>: an event
  for \<open>p\<close> is an end event without data, and there is one only if \<open>d\<close> still has
  \<^verbatim>\<open>final_output\<close> and \<^verbatim>\<open>inputs\<close>; when \<open>d\<close> has lost one of them, a patch that
  touches \<open>p\<close> ends the loop with an exception.
\<close>

lemma patch_loop_drained:
  "patch_loop radd order st y logs = (evs, r) \<Longrightarrow>
   get_log st p = Inr (PDict d) \<Longrightarrow> drained d \<Longrightarrow>
   (\<And>log s s' d. log \<in> set logs \<Longrightarrow> radd s log = Inr s' \<Longrightarrow> get_log s p = Inr (PDict d) \<Longrightarrow>
      \<exists>d'. get_log s' p = Inr (PDict d') \<and>
        (\<forall>k\<in>{''end_time'', ''type'', ''inputs'', ''final_output''}. map_of d' k = map_of d k)) \<Longrightarrow>
   (\<forall>ev. (SubRun p, ev) \<in> set evs \<longrightarrow>
      kind (event ev) = End \<and> (data ev = [] \<or> data ev = [(''output'', PNone)]) \<and>
      \<not> (map_of d ''final_output'' = None \<or> map_of d ''inputs'' = None)) \<and>
   ((map_of d ''final_output'' = None \<or> map_of d ''inputs'' = None) \<longrightarrow>
    (\<exists>log\<in>set logs. \<exists>ps. touched_paths log = Inr ps \<and> p \<in> set (order ps)) \<longrightarrow>
    (\<exists>x. r = Inl x))"
proof (induction logs arbitrary: st y evs r d)
  case Nil
  then show ?case by simp
next
  case (Cons log logs)
  obtain e1 r1 where b: "patch_body radd order st y log = (e1, r1)"
    by (cases "patch_body radd order st y log")
  have u: "\<And>s'. radd st log = Inr s' \<Longrightarrow>
        \<exists>d'. get_log s' p = Inr (PDict d') \<and>
          (\<forall>k\<in>{''end_time'', ''type'', ''inputs'', ''final_output''}. map_of d' k = map_of d k)"
    using Cons.prems(4) [OF list.set_intros(1), of st _ d] Cons.prems(2) by simp
  note pb = patch_body_drained [OF b Cons.prems(2,3) u]
  from pb have pb1: "\<forall>ev. (SubRun p, ev) \<in> set e1 \<longrightarrow>
            kind (event ev) = End \<and> (data ev = [] \<or> data ev = [(''output'', PNone)]) \<and>
            \<not> (map_of d ''final_output'' = None \<or> map_of d ''inputs'' = None)"
    by (rule conjunct1)
  show ?case
  proof (cases r1)
    case (Inl e)
    with Cons.prems(1) b have "evs = e1" "r = Inl e" by (simp_all add: gen_bind_Inl)
    with pb1 show ?thesis by simp
  next
    case (Inr x)
    obtain st1 y1 where x: "x = (st1, y1)" by (cases x)
    obtain e2 r2 where l: "patch_loop radd order st1 y1 logs = (e2, r2)"
      by (cases "patch_loop radd order st1 y1 logs")
    from Cons.prems(1) b Inr x l have evs: "evs = e1 @ e2" and r: "r = r2"
      by (simp_all add: gen_bind_Inr)
    from pb Inr x obtain d' where g: "get_log st1 p = Inr (PDict d')" and dr: "drained d'"
      and same: "map_of d' ''final_output'' = map_of d ''final_output''"
        "map_of d' ''inputs'' = map_of d ''inputs''"
      by blast
    from pb Inr x have here: "\<forall>ps. touched_paths log = Inr ps \<longrightarrow> p \<in> set (order ps) \<longrightarrow>
               \<not> (map_of d ''final_output'' = None \<or> map_of d ''inputs'' = None)"
      by blast
    note u' = Cons.prems(4) [OF list.set_intros(2)]
    note ih = Cons.IH [OF l g dr u', unfolded same]
    from ih have ih1: "\<forall>ev. (SubRun p, ev) \<in> set e2 \<longrightarrow>
            kind (event ev) = End \<and> (data ev = [] \<or> data ev = [(''output'', PNone)]) \<and>
            \<not> (map_of d ''final_output'' = None \<or> map_of d ''inputs'' = None)"
      by (rule conjunct1)
    from ih have ih2: "(map_of d ''final_output'' = None \<or> map_of d ''inputs'' = None) \<longrightarrow>
        (\<exists>log\<in>set logs. \<exists>ps. touched_paths log = Inr ps \<and> p \<in> set (order ps)) \<longrightarrow>
        (\<exists>x. r2 = Inl x)"
      by (rule conjunct2)
    have a: "\<forall>ev. (SubRun p, ev) \<in> set evs \<longrightarrow>
            kind (event ev) = End \<and> (data ev = [] \<or> data ev = [(''output'', PNone)]) \<and>
            \<not> (map_of d ''final_output'' = None \<or> map_of d ''inputs'' = None)"
      using pb1 ih1 evs by auto
    have c: "(map_of d ''final_output'' = None \<or> map_of d ''inputs'' = None) \<longrightarrow>
        (\<exists>log'\<in>set (log # logs). \<exists>ps. touched_paths log' = Inr ps \<and> p \<in> set (order ps)) \<longrightarrow>
        (\<exists>x. r = Inl x)"
      using here ih2 r by auto
    from a c show ?thesis by (rule conjI)
  qed
qed

text \<open>
  C6. Take a turn of the loop that completes and emits an end event \<open>ev0\<close> for the
  sub-run under \<open>p\<close>, and let every later patch leave \<^verbatim>\<open>end_time\<close>,
  \<^verbatim>\<open>type\<close>, \<^verbatim>\<open>inputs\<close> and \<^verbatim>\<open>final_output\<close> of that sub-run as they are
  (it may touch any other field, \<^verbatim>\<open>streamed_output\<close> included). The turn leaves an
  object \<open>d1\<close> under \<open>p\<close>, and in the later turns:

    \<^item> every event for \<open>p\<close> is an end event whose data are empty or hold only
      \<^verbatim>\<open>output = None\<close>: no chunk, no input and no output value is emitted again;

    \<^item> when \<open>ev0\<close> carried more than \<^verbatim>\<open>output = None\<close>, or the run is of an
      old-style type, the end block has deleted \<^verbatim>\<open>final_output\<close> or
      \<^verbatim>\<open>inputs\<close> from \<open>d1\<close>;

    \<^item> when \<open>d1\<close> has lost one of the two keys, no event at all is emitted for \<open>p\<close>:
      processing \<open>d1\<close> raises \<^verbatim>\<open>KeyError\<close>, and once a later patch touches
      \<open>p\<close> the loop ends with an exception.
\<close>

theorem no_data_after_end:
  assumes ord: "\<And>xs. distinct xs \<Longrightarrow> distinct (order xs) \<and> set (order xs) = set xs"
    and turn: "patch_body radd order st y log = (e, Inr (st3, y3))"
    and ended: "(SubRun p, ev0) \<in> set e" "kind (event ev0) = End"
    and unrelated: "\<forall>log'\<in>set logs. \<forall>s s' d. radd s log' = Inr s' \<longrightarrow>
        get_log s p = Inr (PDict d) \<longrightarrow>
        (\<exists>d'. get_log s' p = Inr (PDict d') \<and>
          (\<forall>k\<in>{''end_time'', ''type'', ''inputs'', ''final_output''}. map_of d' k = map_of d k))"
    and run: "patch_loop radd order st3 y3 logs = (evs, r)"
  shows "\<exists>d1. get_log st3 p = Inr (PDict d1) \<and>
      (\<forall>ev. (SubRun p, ev) \<in> set evs \<longrightarrow>
         kind (event ev) = End \<and> (data ev = [] \<or> data ev = [(''output'', PNone)]) \<and>
         map_of d1 ''final_output'' \<noteq> None \<and> map_of d1 ''inputs'' \<noteq> None) \<and>
      ((data ev0 \<noteq> [] \<and> data ev0 \<noteq> [(''output'', PNone)]) \<or>
       is_old_style (run_type (event ev0)) = Inr True \<longrightarrow>
         map_of d1 ''final_output'' = None \<or> map_of d1 ''inputs'' = None) \<and>
      (map_of d1 ''final_output'' = None \<or> map_of d1 ''inputs'' = None \<longrightarrow>
         sub_run_event (PDict d1) = Inl KeyError \<and>
         ((\<exists>log'\<in>set logs. \<exists>ps. touched_paths log' = Inr ps \<and> p \<in> set (order ps)) \<longrightarrow>
            (\<exists>x. r = Inl x)))"
proof -
  from patch_body_ends [where radd = radd and order = order, OF ord turn ended]
  obtain d1 where g: "get_log st3 p = Inr (PDict d1)" and dr: "drained d1"
    and lost: "(data ev0 \<noteq> [] \<and> data ev0 \<noteq> [(''output'', PNone)]) \<or>
       is_old_style (run_type (event ev0)) = Inr True \<longrightarrow>
         map_of d1 ''final_output'' = None \<or> map_of d1 ''inputs'' = None"
    by blast
  have u: "\<And>log s s' d. log \<in> set logs \<Longrightarrow> radd s log = Inr s' \<Longrightarrow>
              get_log s p = Inr (PDict d) \<Longrightarrow>
              \<exists>d'. get_log s' p = Inr (PDict d') \<and>
                (\<forall>k\<in>{''end_time'', ''type'', ''inputs'', ''final_output''}.
                    map_of d' k = map_of d k)"
    using unrelated by blast
  note pl = patch_loop_drained [where radd = radd and order = order, OF run g dr u]
  from pl have a: "\<forall>ev. (SubRun p, ev) \<in> set evs \<longrightarrow>
         kind (event ev) = End \<and> (data ev = [] \<or> data ev = [(''output'', PNone)]) \<and>
         map_of d1 ''final_output'' \<noteq> None \<and> map_of d1 ''inputs'' \<noteq> None"
    by simp
  from pl have b: "map_of d1 ''final_output'' = None \<or> map_of d1 ''inputs'' = None \<longrightarrow>
         (\<exists>log'\<in>set logs. \<exists>ps. touched_paths log' = Inr ps \<and> p \<in> set (order ps)) \<longrightarrow>
            (\<exists>x. r = Inl x)"
    by (rule conjunct2)
  have c: "map_of d1 ''final_output'' = None \<or> map_of d1 ''inputs'' = None \<longrightarrow>
         sub_run_event (PDict d1) = Inl KeyError"
    using drained_missing_raises [OF dr] by (simp add: sub_run_event_def)
  from b c have d: "map_of d1 ''final_output'' = None \<or> map_of d1 ''inputs'' = None \<longrightarrow>
         sub_run_event (PDict d1) = Inl KeyError \<and>
         ((\<exists>log'\<in>set logs. \<exists>ps. touched_paths log' = Inr ps \<and> p \<in> set (order ps)) \<longrightarrow>
            (\<exists>x. r = Inl x))"
    by blast
  show ?thesis
  proof (rule exI [of _ d1], intro conjI)
    show "get_log st3 p = Inr (PDict d1)" by (rule g)
    show "\<forall>ev. (SubRun p, ev) \<in> set evs \<longrightarrow>
         kind (event ev) = End \<and> (data ev = [] \<or> data ev = [(''output'', PNone)]) \<and>
         map_of d1 ''final_output'' \<noteq> None \<and> map_of d1 ''inputs'' \<noteq> None"
      by (rule a)
    show "(data ev0 \<noteq> [] \<and> data ev0 \<noteq> [(''output'', PNone)]) \<or>
       is_old_style (run_type (event ev0)) = Inr True \<longrightarrow>
         map_of d1 ''final_output'' = None \<or> map_of d1 ''inputs'' = None"
      by (rule lost)
    show "map_of d1 ''final_output'' = None \<or> map_of d1 ''inputs'' = None \<longrightarrow>
         sub_run_event (PDict d1) = Inl KeyError \<and>
         ((\<exists>log'\<in>set logs. \<exists>ps. touched_paths log' = Inr ps \<and> p \<in> set (order ps)) \<longrightarrow>
            (\<exists>x. r = Inl x))"
      by (rule d)
  qed
qed

theorem no_data_after_end_witness:
  "patch_body RunLog_add (\<lambda>xs. xs)
     (Some [(''id'', PStr ''r1''), (''name'', PStr ''root''), (''type'', PStr ''chain''),
            (''streamed_output'', PList []), (''final_output'', PNone),
            (''logs'', PDict [(''a'',
               PDict [(''id'', PStr ''s1''), (''name'', PStr ''step''), (''type'', PStr ''chain''),
                 (''tags'', PList []), (''metadata'', PDict []), (''streamed_output'', PList []),
                 (''inputs'', PDict []), (''final_output'', PNone),
                 (''end_time'', PNone)])])])
     True
     [\<lparr>op = ''add'', path = ''/logs/a/end_time'', val = PStr ''t1''\<rparr>]
   = ([(SubRun ''a'',
        \<lparr>event = On (PStr ''chain'') End, name = PStr ''step'', run_id = PStr ''s1'',
           tags = PList [], metadata = PDict [], data = [(''output'', PNone)]\<rparr>)],
      Inr (Some [(''id'', PStr ''r1''), (''name'', PStr ''root''), (''type'', PStr ''chain''),
            (''streamed_output'', PList []), (''final_output'', PNone),
            (''logs'', PDict [(''a'',
               PDict [(''id'', PStr ''s1''), (''name'', PStr ''step''), (''type'', PStr ''chain''),
                 (''tags'', PList []), (''metadata'', PDict []), (''streamed_output'', PList []),
                 (''inputs'', PDict []), (''final_output'', PNone),
                 (''end_time'', PStr ''t1'')])])], True)) \<and>
   fst (patch_loop RunLog_add (\<lambda>xs. xs)
     (Some [(''id'', PStr ''r1''), (''name'', PStr ''root''), (''type'', PStr ''chain''),
            (''streamed_output'', PList []), (''final_output'', PNone),
            (''logs'', PDict [(''a'',
               PDict [(''id'', PStr ''s1''), (''name'', PStr ''step''), (''type'', PStr ''chain''),
                 (''tags'', PList []), (''metadata'', PDict []), (''streamed_output'', PList []),
                 (''inputs'', PDict []), (''final_output'', PNone),
                 (''end_time'', PStr ''t1'')])])])
     True
     [[\<lparr>op = ''replace'', path = ''/logs/a/name'', val = PStr ''again''\<rparr>]])
   = [(SubRun ''a'',
       \<lparr>event = On (PStr ''chain'') End, name = PStr ''again'', run_id = PStr ''s1'',
          tags = PList [], metadata = PDict [], data = [(''output'', PNone)]\<rparr>)] \<and>
   patch_body RunLog_add (\<lambda>xs. xs)
     (Some [(''id'', PStr ''r1''), (''name'', PStr ''root''), (''type'', PStr ''chain''),
            (''streamed_output'', PList []), (''final_output'', PNone),
            (''logs'', PDict [(''a'',
               PDict [(''id'', PStr ''s1''), (''name'', PStr ''step''), (''type'', PStr ''chain''),
                 (''tags'', PList []), (''metadata'', PDict []), (''streamed_output'', PList []),
                 (''inputs'', PDict [(''input'', PStr ''q'')]),
                 (''final_output'', PDict [(''output'', PStr ''ans'')]),
                 (''end_time'', PNone)])])])
     True
     [\<lparr>op = ''add'', path = ''/logs/a/end_time'', val = PStr ''t1''\<rparr>]
   = ([(SubRun ''a'',
        \<lparr>event = On (PStr ''chain'') End, name = PStr ''step'', run_id = PStr ''s1'',
           tags = PList [], metadata = PDict [],
           data = [(''output'', PStr ''ans''), (''input'', PStr ''q'')]\<rparr>)],
      Inr (Some [(''id'', PStr ''r1''), (''name'', PStr ''root''), (''type'', PStr ''chain''),
            (''streamed_output'', PList []), (''final_output'', PNone),
            (''logs'', PDict [(''a'',
               PDict [(''id'', PStr ''s1''), (''name'', PStr ''step''), (''type'', PStr ''chain''),
                 (''tags'', PList []), (''metadata'', PDict []), (''streamed_output'', PList []),
                 (''end_time'', PStr ''t1'')])])], True)) \<and>
   patch_loop RunLog_add (\<lambda>xs. xs)
     (Some [(''id'', PStr ''r1''), (''name'', PStr ''root''), (''type'', PStr ''chain''),
            (''streamed_output'', PList []), (''final_output'', PNone),
            (''logs'', PDict [(''a'',
               PDict [(''id'', PStr ''s1''), (''name'', PStr ''step''), (''type'', PStr ''chain''),
                 (''tags'', PList []), (''metadata'', PDict []), (''streamed_output'', PList []),
                 (''end_time'', PStr ''t1'')])])])
     True
     [[\<lparr>op = ''replace'', path = ''/logs/a/name'', val = PStr ''again''\<rparr>]]
   = ([], Inl KeyError) \<and>
   sub_run_event
     (PDict [(''id'', PStr ''s1''), (''name'', PStr ''step''), (''type'', PStr ''chain''),
             (''tags'', PList []), (''metadata'', PDict []), (''streamed_output'', PList []),
             (''end_time'', PStr ''t1'')])
   = Inl KeyError"
proof -
  let ?sub = "\<lambda>n et. [(''id'', PStr ''s1''), (''name'', PStr n), (''type'', PStr ''chain''),
             (''tags'', PList []), (''metadata'', PDict []), (''streamed_output'', PList []),
             (''inputs'', PDict []), (''final_output'', PNone), (''end_time'', et)]"
  let ?full = "\<lambda>et. [(''id'', PStr ''s1''), (''name'', PStr ''step''), (''type'', PStr ''chain''),
             (''tags'', PList []), (''metadata'', PDict []), (''streamed_output'', PList []),
             (''inputs'', PDict [(''input'', PStr ''q'')]),
             (''final_output'', PDict [(''output'', PStr ''ans'')]), (''end_time'', et)]"
  let ?lost = "\<lambda>n. [(''id'', PStr ''s1''), (''name'', PStr n), (''type'', PStr ''chain''),
             (''tags'', PList []), (''metadata'', PDict []), (''streamed_output'', PList []),
             (''end_time'', PStr ''t1'')]"
  let ?ev = "\<lambda>n. \<lparr>event = On (PStr ''chain'') End, name = PStr n, run_id = PStr ''s1'',
            tags = PList [], metadata = PDict [], data = [(''output'', PNone)]\<rparr>"
  let ?ev2 = "\<lparr>event = On (PStr ''chain'') End, name = PStr ''step'', run_id = PStr ''s1'',
            tags = PList [], metadata = PDict [],
            data = [(''output'', PStr ''ans''), (''input'', PStr ''q'')]\<rparr>"
  let ?st = "\<lambda>sub. Some [(''id'', PStr ''r1''), (''name'', PStr ''root''), (''type'', PStr ''chain''),
            (''streamed_output'', PList []), (''final_output'', PNone),
            (''logs'', PDict [(''a'', PDict sub)])]"
  let ?end = "[\<lparr>op = ''add'', path = ''/logs/a/end_time'', val = PStr ''t1''\<rparr>]"
  let ?log = "[\<lparr>op = ''replace'', path = ''/logs/a/name'', val = PStr ''again''\<rparr>]"
  have ord: "\<And>xs::string list. distinct xs \<Longrightarrow> distinct ((\<lambda>xs. xs) xs) \<and> set ((\<lambda>xs. xs) xs) = set xs"
    by simp
  have sp: "split (CHR ''/'') ''/logs/a/name'' = ['''', ''logs'', ''a'', ''name'']"
    by simp
  have unrelated: "\<forall>log\<in>set [?log]. \<forall>s s' d. RunLog_add s log = Inr s' \<longrightarrow>
        get_log s ''a'' = Inr (PDict d) \<longrightarrow>
        (\<exists>d'. get_log s' ''a'' = Inr (PDict d') \<and>
          (\<forall>k\<in>{''end_time'', ''type'', ''inputs'', ''final_output''}. map_of d' k = map_of d k))"
  proof (intro ballI allI impI)
    fix log s s' d
    assume log: "log \<in> set [?log]" and add: "RunLog_add s log = Inr s'"
      and g: "get_log s ''a'' = Inr (PDict d)"
    from get_logD [OF g] obtain d0 l where s: "s = Some d0"
      and l: "map_of d0 ''logs'' = Some (PDict l)" and a: "map_of l ''a'' = Some (PDict d)"
      by blast
    from log add s l a sp
    have "s' = Some (AList.update ''logs''
                 (PDict (AList.update ''a'' (PDict (AList.update ''name'' (PStr ''again'') d)) l)) d0)"
      by (auto simp: RunLog_add_def apply_op_def bind_eq_Inr)
    then have "get_log s' ''a'' = Inr (PDict (AList.update ''name'' (PStr ''again'') d))"
      by (simp add: get_log_def state_getitem_def getitem_def lookup_def update_conv')
    moreover have "\<forall>k\<in>{''end_time'', ''type'', ''inputs'', ''final_output''}.
        map_of (AList.update ''name'' (PStr ''again'') d) k = map_of d k"
      by (simp add: update_conv')
    ultimately show "\<exists>d'. get_log s' ''a'' = Inr (PDict d') \<and>
          (\<forall>k\<in>{''end_time'', ''type'', ''inputs'', ''final_output''}. map_of d' k = map_of d k)"
      by blast
  qed
  have tp: "touched_paths ?end = Inr [''a'']" "touched_paths ?log = Inr [''a'']"
    by (simp_all add: touched_paths_def startswith_def item_def)
  have rs: "\<And>sub. root_stream (?st sub) = ([], Inr (?st sub))"
    by (simp add: root_stream_def state_getitem_def lookup_def)
  have m1: "RunLog_add (?st (?sub ''step'' PNone)) ?end = Inr (?st (?sub ''step'' (PStr ''t1'')))"
    by (simp add: RunLog_add_def apply_op_def)
  have se1: "\<And>n. sub_run_event (PDict (?sub n (PStr ''t1''))) = Inr (?ev n, PDict (?sub n (PStr ''t1'')))"
    by (simp add: sub_run_event_def sub_run_dict_def classify_def end_data_def lookup_def)
  have step1: "\<And>n. sub_run_step (?st (?sub n (PStr ''t1''))) ''a''
                  = Inr (?ev n, ?st (?sub n (PStr ''t1'')))"
    by (simp add: sub_run_step_def get_log_def state_getitem_def getitem_def lookup_def se1
        store_log_def)
  have turn1: "patch_body RunLog_add (\<lambda>xs. xs) (?st (?sub ''step'' PNone)) True ?end
                 = ([(SubRun ''a'', ?ev ''step'')], Inr (?st (?sub ''step'' (PStr ''t1'')), True))"
    by (simp add: patch_body_def m1 root_start_flagged tp step1 rs gen_bind_Inr)
  have m1': "RunLog_add (?st (?sub ''step'' (PStr ''t1''))) ?log
               = Inr (?st (?sub ''again'' (PStr ''t1'')))"
    by (simp add: RunLog_add_def apply_op_def)
  have run1: "patch_loop RunLog_add (\<lambda>xs. xs) (?st (?sub ''step'' (PStr ''t1''))) True [?log]
               = ([(SubRun ''a'', ?ev ''again'')], Inr (?st (?sub ''again'' (PStr ''t1'')), True))"
    by (simp add: patch_body_def m1' root_start_flagged tp step1 rs gen_bind_Inr)
  have m2: "RunLog_add (?st (?full PNone)) ?end = Inr (?st (?full (PStr ''t1'')))"
    by (simp add: RunLog_add_def apply_op_def)
  have se2: "sub_run_event (PDict (?full (PStr ''t1''))) = Inr (?ev2, PDict (?lost ''step''))"
    by (simp add: sub_run_event_def sub_run_dict_def classify_def end_data_def lookup_def
        del_key_def getitem_def dict_get_def)
  have step2: "sub_run_step (?st (?full (PStr ''t1''))) ''a'' = Inr (?ev2, ?st (?lost ''step''))"
    by (simp add: sub_run_step_def get_log_def state_getitem_def getitem_def lookup_def se2
        store_log_def)
  have turn2: "patch_body RunLog_add (\<lambda>xs. xs) (?st (?full PNone)) True ?end
                 = ([(SubRun ''a'', ?ev2)], Inr (?st (?lost ''step''), True))"
    by (simp add: patch_body_def m2 root_start_flagged tp step2 rs gen_bind_Inr)
  have m2': "RunLog_add (?st (?lost ''step'')) ?log = Inr (?st (?lost ''again''))"
    by (simp add: RunLog_add_def apply_op_def)
  have step2': "sub_run_step (?st (?lost ''again'')) ''a'' = Inl KeyError"
    by (simp add: sub_run_step_def get_log_def state_getitem_def getitem_def lookup_def
        sub_run_event_def sub_run_dict_def classify_def end_data_def)
  have run2: "patch_loop RunLog_add (\<lambda>xs. xs) (?st (?lost ''step'')) True [?log]
               = ([], Inl KeyError)"
    by (simp add: patch_body_def m2' root_start_flagged tp step2' gen_bind_Inr gen_bind_Inl)
  have in1: "(SubRun ''a'', ?ev ''step'') \<in> set [(SubRun ''a'', ?ev ''step'')]" by simp
  have k1: "kind (event (?ev ''step'')) = End" by simp
  have in2: "(SubRun ''a'', ?ev2) \<in> set [(SubRun ''a'', ?ev2)]" by simp
  have k2: "kind (event ?ev2) = End" by simp
  have g1: "get_log (?st (?sub ''step'' (PStr ''t1''))) ''a'' = Inr (PDict (?sub ''step'' (PStr ''t1'')))"
    and g2: "get_log (?st (?lost ''step'')) ''a'' = Inr (PDict (?lost ''step''))"
    by (simp_all add: get_log_def state_getitem_def getitem_def lookup_def)
  from no_data_after_end [where radd = RunLog_add and order = "\<lambda>xs. xs",
      OF ord turn1 in1 k1 unrelated run1]
  have c1: "data (?ev ''again'') = [] \<or> data (?ev ''again'') = [(''output'', PNone)]"
    by simp
  from no_data_after_end [where radd = RunLog_add and order = "\<lambda>xs. xs",
      OF ord turn2 in2 k2 unrelated run2]
  have c2: "sub_run_event (PDict (?lost ''step'')) = Inl KeyError"
    unfolding g2 by simp
  from c1 c2 turn1 run1 turn2 run2 show ?thesis by simp
qed

text \<open>
  C6 as stated fails in its last part, that each chunk and each consumed field is
  surfaced exactly once. A chunk that a patch appends together with \<^verbatim>\<open>end_time\<close>
  is never emitted: the branch \<^verbatim>\<open>else: event_type = "end"\<close> does not read
  \<^verbatim>\<open>streamed_output\<close>. And the inputs of a new-style run are emitted by the start
  event, which leaves them in place, and again by the end event. Below, the chunk
  \<^verbatim>\<open>tok\<close> appears in no event, and the input \<^verbatim>\<open>q\<close> in two.
\<close>

theorem chunk_with_end_time_counterexample:
  "as_event_stream RunLog_add (\<lambda>xs. xs)
     [[\<lparr>op = ''replace'', path = '''',
         val = PDict [(''id'', PStr ''r1''), (''name'', PStr ''root''), (''type'', PStr ''chain''),
                      (''streamed_output'', PList []), (''final_output'', PNone),
                      (''logs'', PDict [])]\<rparr>],
      [\<lparr>op = ''add'', path = ''/logs/a'',
         val = PDict [(''id'', PStr ''s1''), (''name'', PStr ''step''), (''type'', PStr ''chain''),
                      (''tags'', PList []), (''metadata'', PDict []),
                      (''streamed_output'', PList []),
                      (''inputs'', PDict [(''input'', PStr ''q'')]),
                      (''final_output'', PNone), (''end_time'', PNone)]\<rparr>],
      [\<lparr>op = ''add'', path = ''/logs/a/streamed_output/-'', val = PStr ''tok''\<rparr>,
       \<lparr>op = ''add'', path = ''/logs/a/end_time'', val = PStr ''t1''\<rparr>]]
   = ([(RootStart, \<lparr>event = On (PStr ''chain'') Start, name = PStr ''root'',
                     run_id = PStr ''r1'', tags = PList [], metadata = PDict [], data = []\<rparr>),
       (SubRun ''a'', \<lparr>event = On (PStr ''chain'') Start, name = PStr ''step'',
                     run_id = PStr ''s1'', tags = PList [], metadata = PDict [],
                     data = [(''input'', PStr ''q'')]\<rparr>),
       (SubRun ''a'', \<lparr>event = On (PStr ''chain'') End, name = PStr ''step'',
                     run_id = PStr ''s1'', tags = PList [], metadata = PDict [],
                     data = [(''output'', PNone), (''input'', PStr ''q'')]\<rparr>),
       (RootEnd, \<lparr>event = On (PStr ''chain'') End, name = PStr ''root'',
                   run_id = PStr ''r1'', tags = PList [], metadata = PDict [],
                   data = [(''output'', PNone)]\<rparr>)],
      Inr ())"
proof -
  let ?sub = "\<lambda>so et. [(''id'', PStr ''s1''), (''name'', PStr ''step''), (''type'', PStr ''chain''),
                      (''tags'', PList []), (''metadata'', PDict []),
                      (''streamed_output'', PList so),
                      (''inputs'', PDict [(''input'', PStr ''q'')]),
                      (''final_output'', PNone), (''end_time'', et)]"
  let ?gone = "[(''id'', PStr ''s1''), (''name'', PStr ''step''), (''type'', PStr ''chain''),
                      (''tags'', PList []), (''metadata'', PDict []),
                      (''streamed_output'', PList [PStr ''tok'']),
                      (''final_output'', PNone), (''end_time'', PStr ''t1'')]"
  let ?d = "\<lambda>logs. [(''id'', PStr ''r1''), (''name'', PStr ''root''), (''type'', PStr ''chain''),
                      (''streamed_output'', PList []), (''final_output'', PNone),
                      (''logs'', PDict logs)]"
  let ?p1 = "[\<lparr>op = ''replace'', path = '''', val = PDict (?d [])\<rparr>]"
  let ?p2 = "[\<lparr>op = ''add'', path = ''/logs/a'', val = PDict (?sub [] PNone)\<rparr>]"
  let ?p3 = "[\<lparr>op = ''add'', path = ''/logs/a/streamed_output/-'', val = PStr ''tok''\<rparr>,
       \<lparr>op = ''add'', path = ''/logs/a/end_time'', val = PStr ''t1''\<rparr>]"
  let ?s = "\<lparr>event = On (PStr ''chain'') Start, name = PStr ''root'',
                     run_id = PStr ''r1'', tags = PList [], metadata = PDict [], data = []\<rparr>"
  let ?a1 = "\<lparr>event = On (PStr ''chain'') Start, name = PStr ''step'',
                     run_id = PStr ''s1'', tags = PList [], metadata = PDict [],
                     data = [(''input'', PStr ''q'')]\<rparr>"
  let ?a2 = "\<lparr>event = On (PStr ''chain'') End, name = PStr ''step'',
                     run_id = PStr ''s1'', tags = PList [], metadata = PDict [],
                     data = [(''output'', PNone), (''input'', PStr ''q'')]\<rparr>"
  let ?e = "\<lparr>event = On (PStr ''chain'') End, name = PStr ''root'',
                   run_id = PStr ''r1'', tags = PList [], metadata = PDict [],
                   data = [(''output'', PNone)]\<rparr>"
  have m1: "RunLog_add None ?p1 = Inr (Some (?d []))"
    by (simp add: RunLog_add_def apply_op_def)
  have m2: "RunLog_add (Some (?d [])) ?p2 = Inr (Some (?d [(''a'', PDict (?sub [] PNone))]))"
    by (simp add: RunLog_add_def apply_op_def)
  have m3: "RunLog_add (Some (?d [(''a'', PDict (?sub [] PNone))])) ?p3
              = Inr (Some (?d [(''a'', PDict (?sub [PStr ''tok''] (PStr ''t1'')))]))"
    by (simp add: RunLog_add_def apply_op_def)
  have t1: "touched_paths ?p1 = Inr []"
    by (simp add: touched_paths_def startswith_def)
  have t2: "touched_paths ?p2 = Inr [''a'']" and t3: "touched_paths ?p3 = Inr [''a'']"
    by (simp_all add: touched_paths_def startswith_def item_def)
  have rs: "root_start (Some (?d [])) False = ([(RootStart, ?s)], Inr True)"
    by (simp add: root_start_def lookup_def gen_bind_Inr lift_def)
  have st: "\<And>logs. root_stream (Some (?d logs)) = ([], Inr (Some (?d logs)))"
    by (simp add: root_stream_def state_getitem_def lookup_def)
  have s2: "sub_run_step (Some (?d [(''a'', PDict (?sub [] PNone))])) ''a''
              = Inr (?a1, Some (?d [(''a'', PDict (?sub [] PNone))]))"
    by (simp add: sub_run_step_def get_log_def state_getitem_def getitem_def lookup_def
        sub_run_event_def sub_run_dict_def classify_def start_data_def store_log_def)
  have s3: "sub_run_step (Some (?d [(''a'', PDict (?sub [PStr ''tok''] (PStr ''t1'')))])) ''a''
              = Inr (?a2, Some (?d [(''a'', PDict ?gone)]))"
    by (simp add: sub_run_step_def get_log_def state_getitem_def getitem_def lookup_def
        sub_run_event_def sub_run_dict_def classify_def end_data_def del_key_def store_log_def)
  have b1: "patch_body RunLog_add (\<lambda>xs. xs) None False ?p1
              = ([(RootStart, ?s)], Inr (Some (?d []), True))"
    by (simp add: patch_body_def m1 rs t1 st gen_bind_Inr)
  have b2: "patch_body RunLog_add (\<lambda>xs. xs) (Some (?d [])) True ?p2
              = ([(SubRun ''a'', ?a1)], Inr (Some (?d [(''a'', PDict (?sub [] PNone))]), True))"
    by (simp add: patch_body_def m2 root_start_flagged t2 s2 st gen_bind_Inr)
  have b3: "patch_body RunLog_add (\<lambda>xs. xs) (Some (?d [(''a'', PDict (?sub [] PNone))])) True ?p3
              = ([(SubRun ''a'', ?a2)], Inr (Some (?d [(''a'', PDict ?gone)]), True))"
    by (simp add: patch_body_def m3 root_start_flagged t3 s3 st gen_bind_Inr)
  have fe: "final_event (Some (?d [(''a'', PDict ?gone)])) = ([(RootEnd, ?e)], Inr ())"
    by (simp add: final_event_def lookup_def gen_bind_Inr lift_def)
  show ?thesis
    by (simp add: as_event_stream_def event_stream_from_def b1 b2 b3 fe gen_bind_Inr)
qed

end
